(* ===== verification/Prelude.thy ===== *)
theory Prelude
  imports Main "HOL-Library.Word"
begin

text \<open>
  Shared vocabulary of the development: the widths of the integers the program uses, the
  results of fallible code, and the parts of Rust's core library that the components call
  (\<open>Option\<close>/\<open>Result\<close> plumbing, checked and saturating integer arithmetic, \<open>Duration\<close> and
  \<open>Instant\<close>, decimal display).

  Integers keep their width as words.  The release profile of the workspace
  (\<^verbatim>\<open>src/Cargo.toml\<close>) sets \<^verbatim>\<open>overflow-checks = true\<close>, so a plain \<open>+\<close> that
  overflows is a panic and is written with \<open>checked_add\<close> here.

  A \<open>Duration\<close> is a canonical pair of seconds and nanoseconds; it is modelled by its
  number of nanoseconds, a natural number of at most \<open>DURATION_MAX\<close>.  An \<open>Instant\<close> is a
  number of nanoseconds on the monotonic clock.  A Rust \<open>String\<close> is the list of its UTF-8
  bytes.
\<close>

type_synonym u8 = "8 word"
type_synonym u16 = "16 word"
type_synonym u32 = "32 word"
type_synonym u64 = "64 word"
type_synonym u128 = "128 word"
type_synonym h256 = "256 word"
type_synonym duration = nat
type_synonym instant = nat

section \<open>Results\<close>

text \<open>
  A computation that stops early does so with an error of the program's own type
  (\<open>return Err(..)\<close> and the \<open>?\<close> operator), with a panic, or because it never returns.
\<close>

datatype 'e failure = Err 'e | Panic string | Diverge

type_synonym ('e, 'a) res = "'e failure + 'a"

definition bind_res :: "'f + 'a \<Rightarrow> ('a \<Rightarrow> 'f + 'b) \<Rightarrow> 'f + 'b" where
  "bind_res m k = (case m of Inl f \<Rightarrow> Inl f | Inr a \<Rightarrow> k a)"

definition ok_or :: "'e \<Rightarrow> 'a option \<Rightarrow> ('e, 'a) res" where
  "ok_or e x = (case x of None \<Rightarrow> Inl (Err e) | Some a \<Rightarrow> Inr a)"

definition expect :: "string \<Rightarrow> 'a option \<Rightarrow> ('e, 'a) res" where
  "expect msg x = (case x of None \<Rightarrow> Inl (Panic msg) | Some a \<Rightarrow> Inr a)"

definition question :: "('x \<Rightarrow> 'e) \<Rightarrow> 'x + 'a \<Rightarrow> ('e, 'a) res" where
  "question conv r = (case r of Inl x \<Rightarrow> Inl (Err (conv x)) | Inr a \<Rightarrow> Inr a)"

fun try_collect :: "('f + 'a) list \<Rightarrow> 'f + 'a list" where
  "try_collect [] = Inr []"
| "try_collect (r # rs) =
     (case r of Inl f \<Rightarrow> Inl f
      | Inr a \<Rightarrow> (case try_collect rs of Inl f \<Rightarrow> Inl f | Inr as \<Rightarrow> Inr (a # as)))"

section \<open>Integers\<close>

definition checked_add :: "'a::len word \<Rightarrow> 'a word \<Rightarrow> 'a word option" where
  "checked_add a b = (if unat a + unat b < 2 ^ LENGTH('a) then Some (a + b) else None)"

definition saturating_sub :: "'a::len word \<Rightarrow> 'a word \<Rightarrow> 'a word" where
  "saturating_sub a b = (if a < b then 0 else a - b)"

definition checked_pow :: "'a::len itself \<Rightarrow> nat \<Rightarrow> nat \<Rightarrow> 'a word option" where
  "checked_pow _ b e = (if b ^ e < 2 ^ LENGTH('a) then Some (of_nat (b ^ e)) else None)"

definition range_incl :: "'a::len word \<Rightarrow> 'a word \<Rightarrow> 'a word list" where
  "range_incl a b = map of_nat [unat a ..< Suc (unat b)]"

section \<open>Duration and Instant\<close>

definition NANOS_PER_SEC :: nat where
  "NANOS_PER_SEC = 1000000000"

definition DURATION_MAX :: duration where
  "DURATION_MAX = 2 ^ 64 * NANOS_PER_SEC - 1"

definition duration_from_secs :: "u64 \<Rightarrow> duration" where
  "duration_from_secs s = unat s * NANOS_PER_SEC"

definition duration_checked_add :: "duration \<Rightarrow> duration \<Rightarrow> duration option" where
  "duration_checked_add a b = (if a + b \<le> DURATION_MAX then Some (a + b) else None)"

definition duration_saturating_add :: "duration \<Rightarrow> duration \<Rightarrow> duration" where
  "duration_saturating_add a b = min DURATION_MAX (a + b)"

definition duration_div :: "duration \<Rightarrow> u32 \<Rightarrow> duration option" where
  "duration_div d n = (if n = 0 then None else Some (d div unat n))"

definition duration_since :: "instant \<Rightarrow> instant \<Rightarrow> duration" where
  "duration_since now earlier = now - earlier"

definition as_millis :: "duration \<Rightarrow> nat" where
  "as_millis d = d div 1000000"

section \<open>Display of integers\<close>

definition digit_char :: "nat \<Rightarrow> char" where
  "digit_char d = char_of (48 + d)"

fun show_nat :: "nat \<Rightarrow> string" where
  "show_nat n =
     (if n < 10 then [digit_char n] else show_nat (n div 10) @ [digit_char (n mod 10)])"

declare show_nat.simps [simp del]

definition show_word :: "'a::len word \<Rightarrow> string" where
  "show_word w = show_nat (unat w)"

fun read_nat :: "nat \<Rightarrow> string \<Rightarrow> nat" where
  "read_nat acc [] = acc"
| "read_nat acc (c # cs) = read_nat (10 * acc + (of_char c - 48)) cs"

section \<open>Lemma collections\<close>

named_theorems res_simps \<open>unfolding of the result combinators\<close>
named_theorems word_arith \<open>natural-number readings of checked and saturating arithmetic\<close>

lemmas res_defs [res_simps] = bind_res_def ok_or_def expect_def question_def

lemma bind_res_Inr [simp]: "bind_res (Inr a) k = k a"
  by (simp add: bind_res_def)

lemma bind_res_Inl [simp]: "bind_res (Inl f) k = Inl f"
  by (simp add: bind_res_def)

lemma bind_res_eq_Inr:
  "bind_res m k = Inr b \<longleftrightarrow> (\<exists>a. m = Inr a \<and> k a = Inr b)"
  by (auto simp: bind_res_def split: sum.splits)

lemma try_collect_map_Inr [simp]: "try_collect (map (\<lambda>x. Inr (f x)) xs) = Inr (map f xs)"
  by (induction xs) auto

lemma try_collect_Inr: "try_collect rs = Inr xs \<Longrightarrow> rs = map Inr xs"
  by (induction rs arbitrary: xs) (auto split: sum.splits)

lemma try_collect_Inr_iff: "try_collect rs = Inr xs \<longleftrightarrow> rs = map Inr xs"
  using try_collect_map_Inr [of id xs] by (auto dest: try_collect_Inr)

lemma try_collect_Inl:
  "try_collect rs = Inl f \<Longrightarrow> \<exists>pre post. rs = map Inr pre @ Inl f # post"
proof (induction rs)
  case (Cons r rs)
  show ?case
  proof (cases r)
    case (Inl g)
    with Cons.prems have "r # rs = map Inr [] @ Inl f # rs" by simp
    then show ?thesis by blast
  next
    case (Inr a)
    with Cons.prems have "try_collect rs = Inl f" by (auto split: sum.splits)
    then obtain pre post where "rs = map Inr pre @ Inl f # post" using Cons.IH by blast
    with Inr have "r # rs = map Inr (a # pre) @ Inl f # post" by simp
    then show ?thesis by blast
  qed
qed simp

lemma checked_add_Some [word_arith]:
  "checked_add a b = Some c \<Longrightarrow> unat c = unat a + unat b"
  by (auto simp: checked_add_def unat_word_ariths split: if_splits)

lemma checked_add_None [word_arith]:
  "checked_add (a::'a::len word) b = None \<longleftrightarrow> 2 ^ LENGTH('a) \<le> unat a + unat b"
  by (auto simp: checked_add_def)

lemma unat_saturating_sub [word_arith, simp]:
  "unat (saturating_sub a b) = unat a - unat b"
  by (auto simp: saturating_sub_def word_less_nat_alt unat_sub_if' not_less)

lemma saturating_sub_le [simp]: "saturating_sub a b \<le> a"
  by (simp add: word_le_nat_alt)

lemma set_range_incl [simp]: "set (range_incl a b) = {a..b}"
proof -
  have "x \<in> of_nat ` {unat a ..< Suc (unat b)}" if "a \<le> x" "x \<le> b" for x
    using that by (intro image_eqI [of _ _ "unat x"]) (auto simp: word_le_nat_alt less_Suc_eq_le)
  moreover have "a \<le> of_nat n \<and> of_nat n \<le> b" if "unat a \<le> n" "n \<le> unat b" for n
  proof -
    have "n < 2 ^ LENGTH('a)" using that(2) by (metis order_le_less_trans unsigned_less)
    then have "unat (of_nat n :: 'a word) = n" by (simp add: unat_of_nat)
    then show ?thesis using that by (simp add: word_le_nat_alt)
  qed
  ultimately show ?thesis
    unfolding range_incl_def set_map set_upt by (auto simp: less_Suc_eq_le)
qed

lemma length_range_incl [simp]: "length (range_incl a b) = Suc (unat b) - unat a"
  by (auto simp: range_incl_def Suc_diff_le)

lemma duration_saturating_add_le [simp]: "duration_saturating_add a b \<le> DURATION_MAX"
  by (simp add: duration_saturating_add_def)

lemma of_char_digit [simp]: "d < 10 \<Longrightarrow> of_char (digit_char d) = 48 + d"
  by (simp add: digit_char_def)

lemma read_nat_append: "read_nat acc (s @ t) = read_nat (read_nat acc s) t"
  by (induction s arbitrary: acc) auto

lemma read_nat_show_nat [simp]: "read_nat 0 (show_nat n) = n"
proof (induction n rule: show_nat.induct)
  case (1 n)
  show ?case
  proof (cases "n < 10")
    case True
    then show ?thesis by (simp add: show_nat.simps [of n])
  next
    case False
    with 1 show ?thesis by (simp add: show_nat.simps [of n] read_nat_append)
  qed
qed

lemma show_nat_inject [simp]: "show_nat m = show_nat n \<longleftrightarrow> m = n"
  by (metis read_nat_show_nat)

lemma show_word_inject [simp]: "show_word v = show_word w \<longleftrightarrow> v = w"
  by (simp add: show_word_def word_unat_eq_iff)

end
