(* ===== verification/Task_Loop.thy ===== *)
theory Task_Loop
  imports Prelude
begin

text \<open>
  Every long-running task of the alerter is a \<^verbatim>\<open>loop { .. }\<close> that waits for its next
  input, updates local state, emits messages and either goes round again or leaves the loop
  through \<open>?\<close>, \<open>return\<close> or a panic.  A task is modelled by its loop body, a function from
  the local state and one input to the new state, the messages emitted in order and, when the
  body leaves the loop, the failure.  \<open>run_loop\<close> feeds a finite sequence of inputs to a body:
  the result \<open>None\<close> says that the task is still waiting for its next input.

  The locales state the contracts the components prove of their loop bodies: an
  assume/guarantee contract (\<open>loop_contract\<close>), and a functional refinement of a more abstract
  loop body (\<open>loop_refinement\<close>).  Their consequences for whole runs are proved here once.
\<close>

type_synonym ('s, 'o, 'f) step_result = "'s \<times> 'o list \<times> 'f option"

fun run_loop :: "('s \<Rightarrow> 'i \<Rightarrow> ('s, 'o, 'f) step_result) \<Rightarrow> 's \<Rightarrow> 'i list \<Rightarrow> ('s, 'o, 'f) step_result" where
  "run_loop body s [] = (s, [], None)"
| "run_loop body s (i # ins) =
     (case body s i of
        (s', os, Some f) \<Rightarrow> (s', os, Some f)
      | (s', os, None) \<Rightarrow>
          (case run_loop body s' ins of (s'', os', r) \<Rightarrow> (s'', os @ os', r)))"

text \<open>The messages of a run, and whether it is still going.\<close>

abbreviation loop_out :: "('s, 'o, 'f) step_result \<Rightarrow> 'o list" where
  "loop_out r \<equiv> fst (snd r)"

abbreviation loop_state :: "('s, 'o, 'f) step_result \<Rightarrow> 's" where
  "loop_state r \<equiv> fst r"

abbreviation loop_end :: "('s, 'o, 'f) step_result \<Rightarrow> 'f option" where
  "loop_end r \<equiv> snd (snd r)"

lemma run_loop_Cons_halt:
  "body s i = (s', os, Some f) \<Longrightarrow> run_loop body s (i # ins) = (s', os, Some f)"
  by simp

lemma run_loop_Cons_go:
  "body s i = (s', os, None) \<Longrightarrow>
   run_loop body s (i # ins) =
     (loop_state (run_loop body s' ins), os @ loop_out (run_loop body s' ins),
      loop_end (run_loop body s' ins))"
  by (simp split: prod.splits)

lemma run_loop_append:
  assumes "run_loop body s ins = (s', os, None)"
  shows "run_loop body s (ins @ js) =
    (loop_state (run_loop body s' js), os @ loop_out (run_loop body s' js),
     loop_end (run_loop body s' js))"
  using assms
proof (induction ins arbitrary: s os)
  case Nil
  then show ?case by simp
next
  case (Cons i ins)
  obtain t o1 r where b: "body s i = (t, o1, r)" by (cases "body s i") auto
  with Cons.prems have r: "r = None" by (cases r) auto
  with b Cons.prems obtain o2 where "run_loop body t ins = (s', o2, None)" and "os = o1 @ o2"
    by (auto split: prod.splits)
  with Cons.IH b r show ?case by simp
qed

lemma run_loop_append_halt:
  "run_loop body s ins = (s', os, Some f) \<Longrightarrow> run_loop body s (ins @ js) = (s', os, Some f)"
proof (induction ins arbitrary: s os)
  case (Cons i ins)
  obtain t o1 r where b: "body s i = (t, o1, r)" by (cases "body s i") auto
  show ?case
  proof (cases r)
    case None
    with b Cons.prems obtain o2 where "run_loop body t ins = (s', o2, Some f)" and "os = o1 @ o2"
      by (auto split: prod.splits)
    with Cons.IH b None show ?thesis by simp
  qed (use b Cons.prems in auto)
qed simp

text \<open>A run fails in one of its steps.\<close>

lemma run_loop_fail_step:
  "run_loop body s ins = (s', os, Some f) \<Longrightarrow> \<exists>i\<in>set ins. \<exists>t os t'. body t i = (t', os, Some f)"
proof (induction ins arbitrary: s os)
  case (Cons i ins)
  obtain t o1 r where b: "body s i = (t, o1, r)" by (metis prod_cases3)
  show ?case
  proof (cases r)
    case None
    with b Cons.prems obtain o2 where "run_loop body t ins = (s', o2, Some f)"
      by (auto split: prod.splits)
    with Cons.IH show ?thesis by auto
  qed (use b Cons.prems in auto)
qed simp

text \<open>
  Under inputs that satisfy the environment's part of the contract, a body keeps its
  invariant, emits only good messages and fails only in expected ways.
\<close>

locale loop_contract =
  fixes body :: "'s \<Rightarrow> 'i \<Rightarrow> ('s, 'o, 'f) step_result"
    and inv :: "'s \<Rightarrow> bool"
    and input_ok :: "'i \<Rightarrow> bool"
    and out_ok :: "'o \<Rightarrow> bool"
    and fail_ok :: "'f \<Rightarrow> bool"
  assumes body_inv: "inv s \<Longrightarrow> input_ok i \<Longrightarrow> body s i = (s', os, r) \<Longrightarrow> inv s'"
    and body_out: "inv s \<Longrightarrow> input_ok i \<Longrightarrow> body s i = (s', os, r) \<Longrightarrow> x \<in> set os \<Longrightarrow> out_ok x"
    and body_fail: "inv s \<Longrightarrow> input_ok i \<Longrightarrow> body s i = (s', os, Some f) \<Longrightarrow> fail_ok f"
begin

lemma run_contract:
  assumes "inv s" and "list_all input_ok ins" and "run_loop body s ins = (s', os, r)"
  shows "inv s' \<and> list_all out_ok os \<and> pred_option fail_ok r"
  using assms
proof (induction ins arbitrary: s os)
  case Nil
  then show ?case by simp
next
  case (Cons i ins)
  obtain t o1 q where b: "body s i = (t, o1, q)" by (cases "body s i") auto
  from Cons.prems have i: "input_ok i" and ins: "list_all input_ok ins" by simp_all
  from Cons.prems(1) i b have t: "inv t" and o1: "list_all out_ok o1"
    by (auto simp: list_all_iff dest: body_inv body_out)
  show ?case
  proof (cases q)
    case None
    obtain o2 where "run_loop body t ins = (s', o2, r)" and "os = o1 @ o2"
      using b None Cons.prems(3) by (auto split: prod.splits)
    with Cons.IH [OF t ins] o1 show ?thesis by simp
  next
    case (Some f)
    with Cons.prems b i have "fail_ok f" by (auto dest: body_fail)
    with Some Cons.prems(3) b t o1 show ?thesis by auto
  qed
qed

lemmas run_inv = run_contract [THEN conjunct1]
lemmas run_out = run_contract [THEN conjunct2, THEN conjunct1]
lemmas run_fail = run_contract [THEN conjunct2, THEN conjunct2]

end

text \<open>
  A body that implements a more abstract one step by step implements it run by run, with the
  same messages and the same outcome.
\<close>

locale loop_refinement =
  fixes body :: "'s \<Rightarrow> 'i \<Rightarrow> ('s, 'o, 'f) step_result"
    and spec :: "'a \<Rightarrow> 'i \<Rightarrow> ('a, 'o, 'f) step_result"
    and abs :: "'s \<Rightarrow> 'a"
  assumes simulates: "body s i = (s', os, r) \<Longrightarrow> spec (abs s) i = (abs s', os, r)"
begin

lemma run_refines:
  "run_loop body s ins = (s', os, r) \<Longrightarrow> run_loop spec (abs s) ins = (abs s', os, r)"
proof (induction ins arbitrary: s os)
  case (Cons i ins)
  obtain t o1 q where b: "body s i = (t, o1, q)" by (cases "body s i") auto
  from simulates [OF b] have a: "spec (abs s) i = (abs t, o1, q)" .
  show ?case
  proof (cases q)
    case None
    obtain o2 where "run_loop body t ins = (s', o2, r)" and "os = o1 @ o2"
      using b None Cons.prems by (auto split: prod.splits)
    with Cons.IH a None show ?thesis by simp
  qed (use a b Cons.prems in auto)
qed simp

end

end
