(* ===== verification/Errors.thy ===== *)
theory Errors
  imports Task_Loop
begin

text \<open>
  The error type of the program (\<^verbatim>\<open>alerter/src/error.rs\<close>): the enum, the conversions
  that the \<open>?\<close> operator applies to the errors of other crates, and the messages.  The
  error values of other crates are represented by their displayed text, which is all the
  program uses of them; the receive error of the broadcast channel keeps its two cases,
  \<open>Closed\<close> and \<open>Lagged\<close>.
\<close>

datatype recv_error = Closed | Lagged u64

datatype error =
    Subxt string
  | Join string
  | Reqwest string
  | MissingBlock
  | Rpc string
  | MissingBlockHashFromCache h256
  | MissingBlockBody h256
  | Storage string
  | Scale string
  | BroadRecvErr recv_error
  | Io string
  | Toml string
  | Config string
  | Slack string
  | App string

text \<open>The foreign error types with a \<open>From\<close> implementation.\<close>

datatype foreign_error =
    ForSubxt string
  | ForJoin string
  | ForReqwest string
  | ForRpc string
  | ForCodec string
  | ForRecv recv_error
  | ForIo string
  | ForToml string
  | ForSlack string

fun error_from :: "foreign_error \<Rightarrow> error" where
  "error_from (ForSubxt err) = Subxt err"
| "error_from (ForJoin err) = Join err"
| "error_from (ForReqwest err) = Reqwest err"
| "error_from (ForRpc err) = Rpc err"
| "error_from (ForCodec err) = Scale err"
| "error_from (ForRecv err) = BroadRecvErr err"
| "error_from (ForIo err) = Io err"
| "error_from (ForToml err) = Toml err"
| "error_from (ForSlack err) = Slack err"

text \<open>
  The messages of the \<^verbatim>\<open>#[error(..)]\<close> attributes.  How a hash and a receive error are
  displayed is the business of the crates that define them (\<open>show_hash\<close>, \<open>show_recv\<close>).
\<close>

fun error_display :: "(h256 \<Rightarrow> string) \<Rightarrow> (recv_error \<Rightarrow> string) \<Rightarrow> error \<Rightarrow> string" where
  "error_display sh sr (Subxt e) = ''Subxt error: '' @ e"
| "error_display sh sr (Join e) = ''Join error: '' @ e"
| "error_display sh sr (Reqwest e) = ''Reqwest error: '' @ e"
| "error_display sh sr MissingBlock = ''Block missing from backend''"
| "error_display sh sr (Rpc e) = ''RPC error: '' @ e"
| "error_display sh sr (MissingBlockHashFromCache h) = ''Block Hash missing from Cache''"
| "error_display sh sr (MissingBlockBody h) = ''Block body missing: '' @ sh h"
| "error_display sh sr (Storage e) = ''Storage error: '' @ e"
| "error_display sh sr (Scale e) = ''Scale error: '' @ e"
| "error_display sh sr (BroadRecvErr e) = ''Broadcast Receive error: '' @ sr e"
| "error_display sh sr (Io e) = ''Io error: '' @ e"
| "error_display sh sr (Toml e) = ''Toml error: '' @ e"
| "error_display sh sr (Config e) = ''Config error: '' @ e"
| "error_display sh sr (Slack e) = ''Slack error: '' @ e"
| "error_display sh sr (App e) = ''Application error: '' @ e"

type_synonym 'a result = "(error, 'a) res"

text \<open>The conversion that \<open>?\<close> applies to a foreign result, as one step.\<close>

abbreviation try_from :: "('x \<Rightarrow> foreign_error) \<Rightarrow> 'x + 'a \<Rightarrow> 'a result" where
  "try_from k r \<equiv> question (\<lambda>x. error_from (k x)) r"

text \<open>Conversion never confuses two foreign errors: the cause can be read off the result.\<close>

lemma error_from_inject [simp]: "error_from e = error_from e' \<longleftrightarrow> e = e'"
  by (cases e; cases e') auto

lemma error_from_Rpc [simp]: "error_from e = Rpc m \<longleftrightarrow> e = ForRpc m"
  by (cases e) auto

section \<open>Waiting with a timeout\<close>

text \<open>
  The outcome of \<open>time::timeout(d, stream.recv()).await\<close> on a broadcast stream: the time has
  elapsed, or something was received.
\<close>

datatype 'a timed_recv = Elapsed | Recv "recv_error + 'a"

text \<open>
  The stall clock that the chain monitor and the slot monitor share: consecutive timeouts add
  up, with saturation, until the clock is taken.
\<close>

definition next_stall :: "duration \<Rightarrow> duration option \<Rightarrow> duration" where
  "next_stall threshold fired =
     (case fired of None \<Rightarrow> threshold | Some t \<Rightarrow> duration_saturating_add t threshold)"

text \<open>The length of \<open>k\<close> consecutive timeouts, and the clock's reading after them.\<close>

definition stall_length :: "duration \<Rightarrow> nat \<Rightarrow> duration" where
  "stall_length threshold k = (if k = 1 then threshold else min DURATION_MAX (k * threshold))"

definition stall_clock :: "duration \<Rightarrow> nat \<Rightarrow> duration option" where
  "stall_clock threshold k = (if k = 0 then None else Some (stall_length threshold k))"

lemma next_stall_clock [simp]: "next_stall threshold (stall_clock threshold k) = stall_length threshold (Suc k)"
  by (auto simp: next_stall_def stall_clock_def stall_length_def duration_saturating_add_def)

lemma stall_length_exact:
  "k * threshold \<le> DURATION_MAX \<Longrightarrow> k \<noteq> 0 \<Longrightarrow> stall_length threshold k = k * threshold"
  by (simp add: stall_length_def)

text \<open>
  What a task owes to carry a stall clock: a timeout never ends it, advances the clock by one
  threshold and reports through \<open>report\<close>.
\<close>

locale stalling_task =
  fixes body :: "'s \<Rightarrow> 'a timed_recv \<Rightarrow> ('s, 'o, 'f) step_result"
    and fired :: "'s \<Rightarrow> duration option"
    and threshold :: duration
    and report :: "'s \<Rightarrow> duration \<Rightarrow> 'o list"
    and set_fired :: "duration option \<Rightarrow> 's \<Rightarrow> 's"
  assumes on_elapsed: "body s Elapsed =
      (set_fired (Some (next_stall threshold (fired s))) s, report s (next_stall threshold (fired s)), None)"
    and fired_set: "fired (set_fired x s) = x"
    and set_set: "set_fired x (set_fired y s) = set_fired x s"
    and set_same: "set_fired (fired s) s = s"
    and report_set: "report (set_fired x s) d = report s d"
begin

lemma run_elapsed:
  assumes "fired s = stall_clock threshold j"
  shows "run_loop body s (replicate k Elapsed) =
    (set_fired (stall_clock threshold (j + k)) s,
     concat (map (\<lambda>i. report s (stall_length threshold i)) [Suc j ..< Suc (j + k)]), None)"
  using assms
proof (induction k arbitrary: s j)
  case 0
  then show ?case using set_same [of s] by simp
next
  case (Suc k)
  let ?s = "set_fired (stall_clock threshold (Suc j)) s"
  have b: "body s Elapsed = (?s, report s (stall_length threshold (Suc j)), None)"
    using Suc.prems by (simp add: on_elapsed) (simp add: stall_clock_def)
  have "run_loop body ?s (replicate k Elapsed) =
      (set_fired (stall_clock threshold (Suc j + k)) s,
       concat (map (\<lambda>i. report s (stall_length threshold i)) [Suc (Suc j) ..< Suc (Suc j + k)]), None)"
    using Suc.IH [of ?s "Suc j"] by (simp add: fired_set set_set report_set)
  moreover have "[Suc j ..< Suc (j + Suc k)] = Suc j # [Suc (Suc j) ..< Suc (Suc j + k)]"
    by (simp add: upt_conv_Cons del: upt_Suc)
  ultimately show ?case by (simp add: b del: upt_Suc)
qed

end

end
