(* ===== verification/Event_Types.thy ===== *)
theory Event_Types
  imports Errors
begin

text \<open>
  The monitored runtime events (\<^verbatim>\<open>alerter/src/event_types.rs\<close>): the structs decoded from a
  block's events, the pallet and event names under which each is found, the conversions into
  the overarching \<open>Event\<close> enum, and the \<open>TransferEvent\<close> trait with its three
  implementations.  An \<open>AccountId\<close> is a 32-byte value.

  The trait is a record of its methods, so that generic code takes the implementation as an
  argument; the locale \<open>transfer_event\<close> is what the implementations promise.
\<close>

type_synonym account_id = h256
type_synonym balance = u128
type_synonym block_number = u32
type_synonym block_hash = h256
type_synonym runtime_id = u32
type_synonym operator_id = u64

datatype domain_id = DomainId u32

fun domain_id_display :: "domain_id \<Rightarrow> string" where
  "domain_id_display (DomainId n) = ''Domain('' @ show_word n @ '')''"

text \<open>The derived \<open>Debug\<close> of the tuple struct.\<close>

fun domain_id_debug :: "domain_id \<Rightarrow> string" where
  "domain_id_debug (DomainId n) = ''DomainId('' @ show_word n @ '')''"

record domain_runtime_upgraded =
  dru_runtime_id :: runtime_id

record domain_instantiated =
  di_domain_id :: domain_id

record fraud_proof_processed =
  fp_domain_id :: domain_id
  fp_new_head_receipt_number :: "block_number option"

datatype slashed_reason = InvalidBundle block_number | BadExecutionReceipt block_hash

record operator_slashed =
  os_operator_id :: operator_id
  os_reason :: slashed_reason

record operator_epoch_expectations =
  expected_bundles :: u64
  min_required_bundles :: u64

record operator_offline =
  oo_operator_id :: operator_id
  oo_domain_id :: domain_id
  oo_submitted_bundles :: u64
  oo_expectations :: operator_epoch_expectations

record balance_withdraw =
  bw_who :: account_id
  bw_amount :: balance

record balance_deposit =
  bd_who :: account_id
  bd_amount :: balance

record sudo_event =
  sudo_result :: "string + unit"

datatype code_updated = CodeUpdatedUnit

record balance_transfer =
  bt_from :: account_id
  bt_to :: account_id
  bt_amount :: balance

datatype transfer_direction = Sender | Receiver

datatype transfer_type = TransferTransfer | TransferWithdraw | TransferDeposit

record transfer_known_account_event =
  tk_direction :: transfer_direction
  tk_transfer_type :: transfer_type
  tk_name :: string
  tk_address :: string
  tk_amount :: balance

datatype event =
    Transfer transfer_known_account_event
  | DomainRuntimeUpgraded domain_runtime_upgraded
  | DomainInstantiated domain_instantiated
  | FraudProofProcessed fraud_proof_processed
  | OperatorSlashed operator_slashed
  | OperatorOffline operator_offline
  | Sudo
  | CodeUpdated code_updated

section \<open>Conversions into \<open>Event\<close>\<close>

definition from_domain_runtime_upgraded :: "domain_runtime_upgraded \<Rightarrow> event" where
  "from_domain_runtime_upgraded v = DomainRuntimeUpgraded v"

definition from_domain_instantiated :: "domain_instantiated \<Rightarrow> event" where
  "from_domain_instantiated v = DomainInstantiated v"

definition from_fraud_proof_processed :: "fraud_proof_processed \<Rightarrow> event" where
  "from_fraud_proof_processed v = FraudProofProcessed v"

definition from_operator_slashed :: "operator_slashed \<Rightarrow> event" where
  "from_operator_slashed v = OperatorSlashed v"

definition from_operator_offline :: "operator_offline \<Rightarrow> event" where
  "from_operator_offline v = OperatorOffline v"

definition from_sudo :: "sudo_event \<Rightarrow> event" where
  "from_sudo v = Sudo"

definition from_code_updated :: "code_updated \<Rightarrow> event" where
  "from_code_updated v = CodeUpdated v"

definition from_transfer_known_account :: "transfer_known_account_event \<Rightarrow> event" where
  "from_transfer_known_account v = Transfer v"

lemmas event_from_defs =
  from_domain_runtime_upgraded_def from_domain_instantiated_def from_fraud_proof_processed_def
  from_operator_slashed_def from_operator_offline_def from_sudo_def from_code_updated_def
  from_transfer_known_account_def

section \<open>Static event names\<close>

record static_event =
  PALLET :: string
  EVENT :: string

definition static_domain_runtime_upgraded :: static_event where
  "static_domain_runtime_upgraded = \<lparr>PALLET = ''Domains'', EVENT = ''DomainRuntimeUpgraded''\<rparr>"

definition static_domain_instantiated :: static_event where
  "static_domain_instantiated = \<lparr>PALLET = ''Domains'', EVENT = ''DomainInstantiated''\<rparr>"

definition static_fraud_proof_processed :: static_event where
  "static_fraud_proof_processed = \<lparr>PALLET = ''Domains'', EVENT = ''FraudProofProcessed''\<rparr>"

definition static_operator_slashed :: static_event where
  "static_operator_slashed = \<lparr>PALLET = ''Domains'', EVENT = ''OperatorSlashed''\<rparr>"

definition static_operator_offline :: static_event where
  "static_operator_offline = \<lparr>PALLET = ''Domains'', EVENT = ''OperatorOffline''\<rparr>"

definition static_balance_withdraw :: static_event where
  "static_balance_withdraw = \<lparr>PALLET = ''Balances'', EVENT = ''Withdraw''\<rparr>"

definition static_balance_deposit :: static_event where
  "static_balance_deposit = \<lparr>PALLET = ''Balances'', EVENT = ''Deposit''\<rparr>"

definition static_sudo :: static_event where
  "static_sudo = \<lparr>PALLET = ''Sudo'', EVENT = ''Sudid''\<rparr>"

definition static_code_updated :: static_event where
  "static_code_updated = \<lparr>PALLET = ''System'', EVENT = ''CodeUpdated''\<rparr>"

definition static_balance_transfer :: static_event where
  "static_balance_transfer = \<lparr>PALLET = ''Balances'', EVENT = ''Transfer''\<rparr>"

lemmas static_event_defs =
  static_domain_runtime_upgraded_def static_domain_instantiated_def
  static_fraud_proof_processed_def static_operator_slashed_def static_operator_offline_def
  static_balance_withdraw_def static_balance_deposit_def static_sudo_def
  static_code_updated_def static_balance_transfer_def

section \<open>The \<open>TransferEvent\<close> trait\<close>

record 't transfer_event_ops =
  ev_transfer_type :: "'t \<Rightarrow> transfer_type"
  ev_amount :: "'t \<Rightarrow> balance"
  ev_from :: "'t \<Rightarrow> account_id option"
  ev_to :: "'t \<Rightarrow> account_id option"

definition balance_withdraw_ops :: "balance_withdraw transfer_event_ops" where
  "balance_withdraw_ops =
     \<lparr>ev_transfer_type = (\<lambda>_. TransferWithdraw), ev_amount = bw_amount,
      ev_from = (\<lambda>e. Some (bw_who e)), ev_to = (\<lambda>_. None)\<rparr>"

definition balance_deposit_ops :: "balance_deposit transfer_event_ops" where
  "balance_deposit_ops =
     \<lparr>ev_transfer_type = (\<lambda>_. TransferDeposit), ev_amount = bd_amount,
      ev_from = (\<lambda>_. None), ev_to = (\<lambda>e. Some (bd_who e))\<rparr>"

definition balance_transfer_ops :: "balance_transfer transfer_event_ops" where
  "balance_transfer_ops =
     \<lparr>ev_transfer_type = (\<lambda>_. TransferTransfer), ev_amount = bt_amount,
      ev_from = (\<lambda>e. Some (bt_from e)), ev_to = (\<lambda>e. Some (bt_to e))\<rparr>"

lemmas transfer_ops_defs =
  balance_withdraw_ops_def balance_deposit_ops_def balance_transfer_ops_def

text \<open>
  The contract of the trait: the transfer type says which parties an event names.  A
  withdrawal has no recipient, a deposit no sender, and a transfer has both.
\<close>

locale transfer_event =
  fixes ops :: "'t transfer_event_ops"
  assumes from_iff: "ev_from ops e = None \<longleftrightarrow> ev_transfer_type ops e = TransferDeposit"
    and to_iff: "ev_to ops e = None \<longleftrightarrow> ev_transfer_type ops e = TransferWithdraw"
begin

lemma some_party: "ev_from ops e \<noteq> None \<or> ev_to ops e \<noteq> None"
  by (auto simp: from_iff to_iff)

end

interpretation bt: transfer_event balance_transfer_ops
  by unfold_locales (simp_all add: transfer_ops_defs)

interpretation bd: transfer_event balance_deposit_ops
  by unfold_locales (simp_all add: transfer_ops_defs)

interpretation bw: transfer_event balance_withdraw_ops
  by unfold_locales (simp_all add: transfer_ops_defs)

end
