(* ===== verification/Header_Cache.thy ===== *)
theory Header_Cache
  imports Event_Types
begin

text \<open>
  The header cache of the block follower: \<open>HeadersMetadataCache\<close> of
  \<^verbatim>\<open>alerter/src/subspace.rs\<close>, with the header types it stores.

  What belongs to other crates is a field of the record \<open>chain_api\<close>: the codec of the
  header's digest, the hash of a header, the metadata made from a header, and the tree route
  computation (whose documented behaviour is stated in \<open>Tree_Route\<close>).  A digest is
  represented by its SCALE bytes.

  The cache is two maps that must agree: the headers by hash, and the hashes by block
  number.  The locale \<open>header_store\<close> is the interface the follower relies on.
\<close>

type_synonym digest = "u8 list"

text \<open>The header as the node's client library delivers it, and as the cache stores it.\<close>

record substrate_header =
  sh_parent_hash :: block_hash
  sh_number :: block_number
  sh_state_root :: block_hash
  sh_extrinsics_root :: block_hash
  sh_digest :: digest

record header =
  h_parent_hash :: block_hash
  h_number :: block_number
  h_state_root :: block_hash
  h_extrinsics_root :: block_hash
  h_digest :: digest

record hash_and_number =
  hn_number :: block_number
  hn_hash :: block_hash

record header_meta =
  m_hash :: block_hash
  m_number :: block_number
  m_parent :: block_hash

record tree_route =
  tr_retracted :: "hash_and_number list"
  tr_common :: hash_and_number
  tr_enacted :: "hash_and_number list"

type_synonym meta_lookup = "block_hash \<Rightarrow> error + header_meta"

record chain_api =
  digest_encode :: "digest \<Rightarrow> u8 list"
  digest_decode :: "u8 list \<Rightarrow> digest option"
  header_hash :: "header \<Rightarrow> block_hash"
  cached_metadata :: "header \<Rightarrow> header_meta"
  tree_route_of :: "meta_lookup \<Rightarrow> block_hash \<Rightarrow> block_hash \<Rightarrow> error + tree_route"

record headers_metadata_cache =
  block_header_data :: "block_hash \<rightharpoonup> header"
  block_number_hashes :: "block_number \<rightharpoonup> block_hash set"

definition default_cache :: headers_metadata_cache where
  "default_cache = \<lparr>block_header_data = Map.empty, block_number_hashes = Map.empty\<rparr>"

text \<open>The header rebuilt with the decoded digest (the first half of \<open>add_header\<close>).\<close>

definition rebuild_header :: "chain_api \<Rightarrow> substrate_header \<Rightarrow> header result" where
  "rebuild_header api sh =
     bind_res (expect ''Digest is always valid'' (digest_decode api (digest_encode api (sh_digest sh))))
       (\<lambda>d. Inr \<lparr>h_parent_hash = sh_parent_hash sh, h_number = sh_number sh,
                 h_state_root = sh_state_root sh, h_extrinsics_root = sh_extrinsics_root sh,
                 h_digest = d\<rparr>)"

definition insert_header :: "chain_api \<Rightarrow> headers_metadata_cache \<Rightarrow> header \<Rightarrow> headers_metadata_cache" where
  "insert_header api c h =
     (let hash = header_hash api h; number = h_number h;
          old = (case block_number_hashes c number of None \<Rightarrow> {} | Some hs \<Rightarrow> hs)
      in c\<lparr>block_header_data := (block_header_data c)(hash \<mapsto> h),
           block_number_hashes := (block_number_hashes c)(number \<mapsto> insert hash old)\<rparr>)"

definition add_header ::
  "chain_api \<Rightarrow> headers_metadata_cache \<Rightarrow> substrate_header \<Rightarrow> (block_hash \<times> headers_metadata_cache) result" where
  "add_header api c sh =
     bind_res (rebuild_header api sh) (\<lambda>h. Inr (header_hash api h, insert_header api c h))"

text \<open>The \<open>while let\<close> loop of \<open>remove_header_until\<close>: it stops at the first number without entries.\<close>

function remove_header_until :: "headers_metadata_cache \<Rightarrow> block_number \<Rightarrow> headers_metadata_cache" where
  "remove_header_until c to_remove =
     (case block_number_hashes c to_remove of
        None \<Rightarrow> c
      | Some hashes \<Rightarrow>
          remove_header_until
            (c\<lparr>block_number_hashes := (block_number_hashes c)(to_remove := None),
               block_header_data := (\<lambda>h. if h \<in> hashes then None else block_header_data c h)\<rparr>)
            (saturating_sub to_remove 1))"
  by pat_completeness auto
termination
proof (relation "measure (\<lambda>(c, n). card (dom (block_number_hashes c)))", goal_cases)
  case (2 c n hashes)
  then have "n \<in> dom (block_number_hashes c)" by auto
  then have "card (dom (block_number_hashes c) - {n}) < card (dom (block_number_hashes c))"
    by (intro card_Diff1_less finite)
  then show ?case by simp
qed simp

declare remove_header_until.simps [simp del]

definition get_header :: "headers_metadata_cache \<Rightarrow> block_hash \<Rightarrow> header result" where
  "get_header c hash = ok_or (MissingBlockHashFromCache hash) (block_header_data c hash)"

text \<open>The implementation of \<open>HeaderMetadata\<close>; the two mutators of the trait do nothing.\<close>

definition header_metadata :: "chain_api \<Rightarrow> headers_metadata_cache \<Rightarrow> meta_lookup" where
  "header_metadata api c hash =
     (case block_header_data c hash of
        None \<Rightarrow> Inl (MissingBlockHashFromCache hash)
      | Some h \<Rightarrow> Inr (cached_metadata api h))"

definition insert_header_metadata ::
  "headers_metadata_cache \<Rightarrow> block_hash \<Rightarrow> header_meta \<Rightarrow> headers_metadata_cache" where
  "insert_header_metadata c _ _ = c"

definition remove_header_metadata :: "headers_metadata_cache \<Rightarrow> block_hash \<Rightarrow> headers_metadata_cache" where
  "remove_header_metadata c _ = c"

text \<open>
  The two halves of the representation invariant.  \<open>cache_indexed\<close>: every stored header is
  stored under its own hash and listed under its own number, so cleaning by number reaches
  it.  \<open>cache_closed\<close>: every listed hash has its header, and no empty list is kept.
\<close>

definition cache_indexed :: "chain_api \<Rightarrow> headers_metadata_cache \<Rightarrow> bool" where
  "cache_indexed api c \<longleftrightarrow>
     (\<forall>hash h. block_header_data c hash = Some h \<longrightarrow>
        header_hash api h = hash \<and> (\<exists>hs. block_number_hashes c (h_number h) = Some hs \<and> hash \<in> hs))"

definition cache_closed :: "headers_metadata_cache \<Rightarrow> bool" where
  "cache_closed c \<longleftrightarrow>
     (\<forall>n hs. block_number_hashes c n = Some hs \<longrightarrow>
        hs \<noteq> {} \<and> (\<forall>hash\<in>hs. \<exists>h. block_header_data c hash = Some h \<and> h_number h = n))"

definition cache_inv :: "chain_api \<Rightarrow> headers_metadata_cache \<Rightarrow> bool" where
  "cache_inv api c \<longleftrightarrow> cache_indexed api c \<and> cache_closed c"

text \<open>A header does not collide with a different cached one.\<close>

definition no_collision :: "chain_api \<Rightarrow> headers_metadata_cache \<Rightarrow> header \<Rightarrow> bool" where
  "no_collision api c h \<longleftrightarrow> block_header_data c (header_hash api h) \<in> {None, Some h}"

text \<open>The numbers \<open>remove_header_until\<close> visits: the longest run of listed numbers that ends at \<open>n\<close>.\<close>

definition run_below :: "headers_metadata_cache \<Rightarrow> block_number \<Rightarrow> block_number set" where
  "run_below c n = {k. k \<le> n \<and> (\<forall>j. k \<le> j \<and> j \<le> n \<longrightarrow> block_number_hashes c j \<noteq> None)}"

definition cached_hashes :: "headers_metadata_cache \<Rightarrow> block_hash set" where
  "cached_hashes c = dom (block_header_data c)"

section \<open>Adding headers\<close>

lemma rebuild_header_Inr:
  "rebuild_header api sh = Inr h \<Longrightarrow>
   h_parent_hash h = sh_parent_hash sh \<and> h_number h = sh_number sh \<and>
   h_state_root h = sh_state_root sh \<and> h_extrinsics_root h = sh_extrinsics_root sh"
  by (auto simp: rebuild_header_def res_simps split: option.splits)

lemma rebuild_header_Inl:
  "rebuild_header api sh = Inl f \<longleftrightarrow>
   f = Panic ''Digest is always valid'' \<and> digest_decode api (digest_encode api (sh_digest sh)) = None"
  by (auto simp: rebuild_header_def res_simps split: option.splits)

lemma add_header_Inr:
  "add_header api c sh = Inr (hash, c') \<longleftrightarrow>
   (\<exists>h. rebuild_header api sh = Inr h \<and> hash = header_hash api h \<and> c' = insert_header api c h)"
  by (auto simp: add_header_def bind_res_eq_Inr)

lemma data_insert_header [simp]:
  "block_header_data (insert_header api c h) = (block_header_data c)(header_hash api h \<mapsto> h)"
  by (simp add: insert_header_def Let_def)

lemma numbers_insert_header [simp]:
  "block_number_hashes (insert_header api c h) =
     (block_number_hashes c)(h_number h \<mapsto>
        insert (header_hash api h) (case block_number_hashes c (h_number h) of None \<Rightarrow> {} | Some hs \<Rightarrow> hs))"
  by (simp add: insert_header_def Let_def)

lemma cache_indexed_insert: "cache_indexed api c \<Longrightarrow> cache_indexed api (insert_header api c h)"
  by (fastforce simp: cache_indexed_def split: option.splits)

lemma cache_closed_insert:
  assumes "cache_closed c" and "no_collision api c h"
  shows "cache_closed (insert_header api c h)"
  using assms by (fastforce simp: cache_closed_def no_collision_def split: option.splits if_splits)

lemma cache_inv_insert:
  "cache_inv api c \<Longrightarrow> no_collision api c h \<Longrightarrow> cache_inv api (insert_header api c h)"
  by (simp add: cache_inv_def cache_indexed_insert cache_closed_insert)

lemma cache_inv_default [simp]: "cache_inv api default_cache"
  by (simp add: cache_inv_def cache_indexed_def cache_closed_def default_cache_def)

lemma get_header_Inr [simp]: "get_header c hash = Inr h \<longleftrightarrow> block_header_data c hash = Some h"
  by (auto simp: get_header_def res_simps split: option.splits)

lemma header_metadata_Inl:
  "header_metadata api c hash = Inl e \<longleftrightarrow>
   e = MissingBlockHashFromCache hash \<and> hash \<notin> cached_hashes c"
  by (auto simp: header_metadata_def cached_hashes_def split: option.splits)

lemma header_metadata_Inr:
  "header_metadata api c hash = Inr m \<longleftrightarrow>
   (\<exists>h. block_header_data c hash = Some h \<and> m = cached_metadata api h)"
  by (auto simp: header_metadata_def split: option.splits)

lemma cached_hashes_insert [simp]:
  "cached_hashes (insert_header api c h) = insert (header_hash api h) (cached_hashes c)"
  by (simp add: cached_hashes_def)

section \<open>Removing headers\<close>

definition drop_number :: "headers_metadata_cache \<Rightarrow> block_number \<Rightarrow> block_hash set \<Rightarrow> headers_metadata_cache" where
  "drop_number c n hashes =
     c\<lparr>block_number_hashes := (block_number_hashes c)(n := None),
       block_header_data := (\<lambda>h. if h \<in> hashes then None else block_header_data c h)\<rparr>"

lemma remove_header_until_None:
  "block_number_hashes c n = None \<Longrightarrow> remove_header_until c n = c"
  by (simp add: remove_header_until.simps)

lemma remove_header_until_Some:
  "block_number_hashes c n = Some hs \<Longrightarrow>
   remove_header_until c n = remove_header_until (drop_number c n hs) (saturating_sub n 1)"
  by (subst remove_header_until.simps) (simp add: drop_number_def)

lemma remove_header_until_induct:
  assumes "\<And>c n. block_number_hashes c n = None \<Longrightarrow> P c n"
    and "\<And>c n hs. block_number_hashes c n = Some hs \<Longrightarrow> P (drop_number c n hs) (saturating_sub n 1) \<Longrightarrow> P c n"
  shows "P c n"
proof (induction c n rule: remove_header_until.induct)
  case (1 c n)
  then show ?case
    by (cases "block_number_hashes c n") (auto simp: drop_number_def intro: assms)
qed

lemma run_below_None: "block_number_hashes c n = None \<Longrightarrow> run_below c n = {}"
  by (auto simp: run_below_def)

lemma le_cases_pred: "(j::'a::len word) \<le> n \<longleftrightarrow> j = n \<or> j \<le> saturating_sub n 1"
proof (cases "n = 0")
  case True
  then show ?thesis by (simp add: saturating_sub_def)
next
  case False
  then have "unat n \<noteq> 0" by (simp add: unat_eq_zero)
  then show ?thesis
    by (auto simp: word_le_nat_alt word_unat_eq_iff)
qed

lemma run_below_Some:
  assumes "block_number_hashes c n = Some hs"
  shows "run_below c n = insert n (run_below (drop_number c n hs) (saturating_sub n 1))"
proof (cases "n = 0")
  case True
  with assms show ?thesis by (auto simp: run_below_def drop_number_def saturating_sub_def)
next
  case False
  let ?p = "saturating_sub n 1"
  from False have "unat n \<noteq> 0" by (simp add: unat_eq_zero)
  then have "?p < n" by (simp add: word_less_nat_alt)
  then have ne: "j \<noteq> n" if "j \<le> ?p" for j using that by auto
  have "k \<in> run_below c n \<longleftrightarrow> k = n \<or> k \<in> run_below (drop_number c n hs) ?p" for k
  proof (cases "k \<le> ?p")
    case True
    then show ?thesis
      using assms ne by (auto simp: run_below_def drop_number_def le_cases_pred [of _ n])
  next
    case False
    then show ?thesis
      using assms by (auto simp: run_below_def le_cases_pred [of _ n])
  qed
  then show ?thesis by auto
qed

lemma numbers_remove_header_until:
  "block_number_hashes (remove_header_until c n) k =
     (if k \<in> run_below c n then None else block_number_hashes c k)"
proof (induction c n rule: remove_header_until_induct)
  case (1 c n)
  then show ?case by (simp add: remove_header_until_None run_below_None)
next
  case (2 c n hs)
  then show ?case
    by (auto simp: remove_header_until_Some run_below_Some) (auto simp: drop_number_def)
qed

lemma data_remove_header_until:
  "block_header_data (remove_header_until c n) hash =
     (if \<exists>k\<in>run_below c n. hash \<in> the (block_number_hashes c k) then None
      else block_header_data c hash)"
proof (induction c n rule: remove_header_until_induct)
  case (1 c n)
  then show ?case by (simp add: remove_header_until_None run_below_None)
next
  case (2 c n hs)
  have "n \<notin> run_below (drop_number c n hs) (saturating_sub n 1)"
    by (auto simp: run_below_def drop_number_def)
  then have "(\<exists>k\<in>run_below (drop_number c n hs) (saturating_sub n 1).
                hash \<in> the (block_number_hashes (drop_number c n hs) k)) \<longleftrightarrow>
             (\<exists>k\<in>run_below (drop_number c n hs) (saturating_sub n 1).
                hash \<in> the (block_number_hashes c k))"
    by (intro bex_cong) (auto simp: drop_number_def)
  with 2 show ?case
    by (auto simp: remove_header_until_Some run_below_Some) (auto simp: drop_number_def)
qed

lemma cache_closedD:
  "cache_closed c \<Longrightarrow> block_number_hashes c n = Some hs \<Longrightarrow> hash \<in> hs \<Longrightarrow>
   \<exists>h. block_header_data c hash = Some h \<and> h_number h = n"
  by (simp add: cache_closed_def)

lemma cache_indexedD:
  "cache_indexed api c \<Longrightarrow> block_header_data c hash = Some h \<Longrightarrow>
   header_hash api h = hash \<and> (\<exists>hs. block_number_hashes c (h_number h) = Some hs \<and> hash \<in> hs)"
  by (simp add: cache_indexed_def)

lemma run_belowD: "k \<in> run_below c n \<Longrightarrow> k \<le> n \<and> (\<exists>hs. block_number_hashes c k = Some hs)"
  by (auto simp: run_below_def)

lemma cache_indexed_remove: "cache_indexed api c \<Longrightarrow> cache_indexed api (remove_header_until c n)"
  unfolding cache_indexed_def data_remove_header_until numbers_remove_header_until
  by (force split: if_splits)

lemma cache_closed_remove:
  assumes "cache_closed c"
  shows "cache_closed (remove_header_until c n)"
proof -
  have "\<exists>h. block_header_data (remove_header_until c n) hash = Some h \<and> h_number h = k"
    if k: "block_number_hashes c k = Some hs" "k \<notin> run_below c n" "hash \<in> hs" for k hs hash
  proof -
    obtain h where h: "block_header_data c hash = Some h" "h_number h = k"
      using cache_closedD [OF assms k(1,3)] by blast
    have "hash \<notin> the (block_number_hashes c j)" if "j \<in> run_below c n" for j
    proof
      assume "hash \<in> the (block_number_hashes c j)"
      with run_belowD [OF that] cache_closedD [OF assms] h(1) have "h_number h = j" by force
      with h that k show False by simp
    qed
    with h show ?thesis by (auto simp: data_remove_header_until)
  qed
  with assms show ?thesis
    by (auto simp: cache_closed_def numbers_remove_header_until)
qed

lemma cache_inv_remove: "cache_inv api c \<Longrightarrow> cache_inv api (remove_header_until c n)"
  by (simp add: cache_inv_def cache_indexed_remove cache_closed_remove)

lemma data_remove_iff:
  assumes "cache_inv api c"
  shows "block_header_data (remove_header_until c n) hash = Some h \<longleftrightarrow>
    block_header_data c hash = Some h \<and> h_number h \<notin> run_below c n"
proof -
  have "(\<exists>k\<in>run_below c n. hash \<in> the (block_number_hashes c k)) \<longleftrightarrow> h_number h \<in> run_below c n"
    if h: "block_header_data c hash = Some h"
  proof
    assume "\<exists>k\<in>run_below c n. hash \<in> the (block_number_hashes c k)"
    then obtain k ks where k: "k \<in> run_below c n" "block_number_hashes c k = Some ks" "hash \<in> ks"
      using run_belowD by (metis option.sel)
    with assms h have "h_number h = k" by (auto simp: cache_inv_def dest: cache_closedD)
    with k show "h_number h \<in> run_below c n" by simp
  next
    assume "h_number h \<in> run_below c n"
    moreover obtain hs where "block_number_hashes c (h_number h) = Some hs" "hash \<in> hs"
      using assms h by (auto simp: cache_inv_def dest: cache_indexedD)
    ultimately show "\<exists>k\<in>run_below c n. hash \<in> the (block_number_hashes c k)" by force
  qed
  then show ?thesis by (auto simp: data_remove_header_until)
qed

lemma run_below_interval:
  assumes listed: "\<And>k. lo \<le> k \<Longrightarrow> k \<le> n \<Longrightarrow> block_number_hashes c k \<noteq> None"
    and below: "\<And>k. k < lo \<Longrightarrow> block_number_hashes c k = None"
  shows "run_below c n = {lo..n}"
proof -
  have "lo \<le> k" if "k \<in> run_below c n" for k
    using that below [of k] by (auto simp: run_below_def not_less [symmetric])
  with listed show ?thesis by (auto simp: run_below_def)
qed

section \<open>The interface the block follower relies on\<close>

locale header_store =
  fixes look :: "'c \<Rightarrow> block_hash \<rightharpoonup> header"
    and add :: "'c \<Rightarrow> header \<Rightarrow> 'c"
    and clean :: "'c \<Rightarrow> block_number \<Rightarrow> 'c"
    and hash_of :: "header \<Rightarrow> block_hash"
    and inv :: "'c \<Rightarrow> bool"
    and fresh :: "'c \<Rightarrow> header \<Rightarrow> bool"
  assumes look_add: "look (add c h) = (look c)(hash_of h \<mapsto> h)"
    and look_clean: "inv c \<Longrightarrow> look (clean c n) x = Some h \<Longrightarrow> look c x = Some h"
    and clean_keeps: "inv c \<Longrightarrow> look c x = Some h \<Longrightarrow> n < h_number h \<Longrightarrow> look (clean c n) x = Some h"
    and inv_add: "inv c \<Longrightarrow> fresh c h \<Longrightarrow> inv (add c h)"
    and inv_clean: "inv c \<Longrightarrow> inv (clean c n)"
    and fresh_iff: "fresh c h \<longleftrightarrow> look c (hash_of h) \<in> {None, Some h}"
    and look_hash: "inv c \<Longrightarrow> look c x = Some h \<Longrightarrow> hash_of h = x"
begin

text \<open>
  The headers drawn from a set \<open>U\<close> without hash collisions: the cache stays within it, and
  every header of it can be added.
\<close>

definition within :: "header set \<Rightarrow> 'c \<Rightarrow> bool" where
  "within U c \<longleftrightarrow> inv c \<and> (\<forall>x h. look c x = Some h \<longrightarrow> h \<in> U)"

lemma within_add:
  assumes "within U c" and "inj_on hash_of U" and "h \<in> U"
  shows "within U (add c h)"
proof -
  have "fresh c h"
    using assms unfolding fresh_iff within_def
    by (cases "look c (hash_of h)") (auto dest: look_hash inj_onD)
  with assms show ?thesis
    by (auto simp: within_def inv_add look_add split: if_splits)
qed

lemma within_clean: "within U c \<Longrightarrow> within U (clean c n)"
  by (auto simp: within_def inv_clean dest: look_clean)

lemma within_fold_add:
  "within U c \<Longrightarrow> inj_on hash_of U \<Longrightarrow> set hs \<subseteq> U \<Longrightarrow> within U (fold (\<lambda>h c. add c h) hs c)"
  by (induction hs arbitrary: c) (auto simp: within_add)

lemma look_fold_add:
  assumes "inj_on hash_of U" and "set hs \<subseteq> U" and "h \<in> set hs \<or> look c (hash_of h) = Some h" and "h \<in> U"
  shows "look (fold (\<lambda>h c. add c h) hs c) (hash_of h) = Some h"
  using assms(2-)
proof (induction hs arbitrary: c)
  case (Cons g hs)
  have "g = h" if "hash_of h = hash_of g"
    using that Cons.prems assms(1) by (auto dest: inj_onD)
  then have "h \<in> set hs \<or> look (add c g) (hash_of h) = Some h"
    using Cons.prems(2) by (auto simp: look_add)
  with Cons.prems show ?case by (simp add: Cons.IH)
qed simp

text \<open>Each header that was missing and is added brings the cache closer to holding every hash.\<close>

lemma add_missing_progress:
  assumes "look c (hash_of h) = None"
  shows "card (- dom (look (add c h))) < card (- dom (look c))"
proof -
  have "- dom (look (add c h)) = - dom (look c) - {hash_of h}" by (auto simp: look_add)
  moreover have "hash_of h \<in> - dom (look c)" using assms by auto
  ultimately show ?thesis by (simp only: card_Diff1_less finite)
qed

end

interpretation hc: header_store block_header_data "insert_header api" remove_header_until
  "header_hash api" "cache_inv api" "no_collision api" for api
proof (unfold_locales, goal_cases)
  case (2 c n x h)
  then show ?case by (simp add: data_remove_iff)
next
  case (3 c x h n)
  then have "h_number h \<notin> run_below c n" by (auto dest: run_belowD)
  with 3 show ?case by (simp add: data_remove_iff)
next
  case (7 c x h)
  then show ?case by (auto simp: cache_inv_def dest: cache_indexedD)
qed (simp_all add: cache_inv_insert cache_inv_remove no_collision_def)

section \<open>Properties\<close>

text \<open>
  An instance for the examples: the hash of a header is its state root.  The route
  computation is not used here.
\<close>

definition plain_api :: chain_api where
  "plain_api = \<lparr>digest_encode = id, digest_decode = Some, header_hash = h_state_root,
     cached_metadata = (\<lambda>h. \<lparr>m_hash = h_state_root h, m_number = h_number h, m_parent = h_parent_hash h\<rparr>),
     tree_route_of = (\<lambda>_ _ _. Inl MissingBlock)\<rparr>"

definition plain_header :: "h256 \<Rightarrow> u32 \<Rightarrow> header" where
  "plain_header hash n = \<lparr>h_parent_hash = 0, h_number = n, h_state_root = hash, h_extrinsics_root = 0, h_digest = []\<rparr>"

definition plain_cache :: "(h256 \<times> u32) list \<Rightarrow> headers_metadata_cache" where
  "plain_cache xs = fold (\<lambda>(hash, n) c. insert_header plain_api c (plain_header hash n)) xs default_cache"

lemma plain_hash [simp]: "header_hash plain_api (plain_header hash n) = hash" "h_number (plain_header hash n) = n"
  by (simp_all add: plain_api_def plain_header_def)

lemma plain_fold_inv:
  "cache_inv plain_api c \<Longrightarrow> distinct (map fst xs) \<Longrightarrow> fst ` set xs \<inter> cached_hashes c = {} \<Longrightarrow>
   cache_inv plain_api (fold (\<lambda>(hash, n) c. insert_header plain_api c (plain_header hash n)) xs c)"
proof (induction xs arbitrary: c)
  case (Cons x xs)
  obtain hash n where x: "x = (hash, n)" by (cases x)
  have "no_collision plain_api c (plain_header hash n)"
    using Cons.prems(3) x by (auto simp: no_collision_def cached_hashes_def)
  then have "cache_inv plain_api (insert_header plain_api c (plain_header hash n))"
    using Cons.prems(1) by (simp add: cache_inv_insert)
  moreover have "fst ` set xs \<inter> cached_hashes (insert_header plain_api c (plain_header hash n)) = {}"
    using Cons.prems(2,3) x by (simp add: Int_insert_right)
  ultimately show ?case using Cons.IH Cons.prems(2) x by simp
qed simp

lemma plain_cache_inv: "distinct (map fst xs) \<Longrightarrow> cache_inv plain_api (plain_cache xs)"
proof -
  have "cached_hashes default_cache = {}" by (simp add: cached_hashes_def default_cache_def)
  then show "cache_inv plain_api (plain_cache xs)" if "distinct (map fst xs)"
    using that unfolding plain_cache_def by (intro plain_fold_inv) simp_all
qed

text \<open>
  C21: Adding a header keeps the two maps of the cache consistent, stores the header under its
  hash, returns that hash and leaves every other entry alone, unless the header collides with
  a different cached one.
\<close>

theorem add_header_correct:
  assumes "cache_inv api c" and "add_header api c sh = Inr (hash, c')"
    and "\<And>h. rebuild_header api sh = Inr h \<Longrightarrow> no_collision api c h"
  shows "cache_inv api c' \<and>
    (\<exists>h. rebuild_header api sh = Inr h \<and> hash = header_hash api h \<and> get_header c' hash = Inr h) \<and>
    (\<forall>x. x \<noteq> hash \<longrightarrow> get_header c' x = get_header c x)"
  using assms by (auto simp: add_header_Inr cache_inv_insert) (simp add: get_header_def)

theorem add_header_correct_witness:
  "cache_inv plain_api (snd (projr (add_header plain_api (plain_cache [(1, 5), (2, 6), (3, 9), (4, 10)])
     \<lparr>sh_parent_hash = 0, sh_number = 11, sh_state_root = 7, sh_extrinsics_root = 0, sh_digest = []\<rparr>)))"
proof -
  let ?c = "plain_cache [(1, 5), (2, 6), (3, 9), (4, 10)]"
  let ?sh = "\<lparr>sh_parent_hash = 0, sh_number = 11, sh_state_root = 7, sh_extrinsics_root = 0, sh_digest = []\<rparr>"
  have r: "rebuild_header plain_api ?sh = Inr (plain_header 7 11)"
    by (simp add: rebuild_header_def res_simps) (simp add: plain_api_def plain_header_def)
  then have add: "add_header plain_api ?c ?sh = Inr (7, insert_header plain_api ?c (plain_header 7 11))"
    by (simp add: add_header_def)
  have "no_collision plain_api ?c (plain_header 7 11)"
    by (simp add: no_collision_def plain_cache_def default_cache_def)
  with r have "no_collision plain_api ?c h" if "rebuild_header plain_api ?sh = Inr h" for h
    using that by simp
  with add_header_correct [OF plain_cache_inv add] add show ?thesis by simp
qed

text \<open>
  C12: \<open>remove_header_until\<close> removes exactly the headers of the unbroken run of cached block
  numbers that ends at the given number, keeps every other header, and keeps the cache
  consistent.  In particular every header above the number survives.
\<close>

theorem remove_header_until_exact:
  assumes "cache_inv api c"
  shows "cache_inv api (remove_header_until c n) \<and>
    (get_header (remove_header_until c n) hash = Inr h \<longleftrightarrow>
     get_header c hash = Inr h \<and>
     \<not> (h_number h \<le> n \<and> (\<forall>j. h_number h \<le> j \<and> j \<le> n \<longrightarrow> block_number_hashes c j \<noteq> None)))"
  using assms by (simp add: cache_inv_remove data_remove_iff) (simp add: run_below_def)

theorem remove_header_until_exact_witness:
  "cache_inv plain_api (remove_header_until (plain_cache [(1, 5), (2, 6), (3, 9), (4, 10)]) 6)"
  using remove_header_until_exact [OF plain_cache_inv, of _ 6 1 "plain_header 1 5"] by simp

text \<open>
  When the cached block numbers have no gap, cleaning up to a number leaves exactly the
  headers above it.
\<close>

theorem remove_header_until_contiguous:
  assumes "cache_inv api c"
    and "\<And>k. lo \<le> k \<Longrightarrow> k \<le> n \<Longrightarrow> block_number_hashes c k \<noteq> None"
    and "\<And>k. k < lo \<Longrightarrow> block_number_hashes c k = None"
  shows "get_header (remove_header_until c n) hash = Inr h \<longleftrightarrow> get_header c hash = Inr h \<and> n < h_number h"
proof -
  have "h_number h \<notin> {lo..n} \<longleftrightarrow> n < h_number h" if "block_header_data c hash = Some h"
  proof -
    have "block_number_hashes c (h_number h) \<noteq> None"
      using that assms(1) by (auto simp: cache_inv_def dest: cache_indexedD)
    with assms(3) [of "h_number h"] show ?thesis by force
  qed
  with assms(1) run_below_interval [of lo n c, OF assms(2,3)] show ?thesis
    by (auto simp: data_remove_iff)
qed

theorem remove_header_until_contiguous_witness:
  "get_header (remove_header_until (plain_cache [(1, 9), (2, 10)]) 9) 2 = Inr (plain_header 2 10)"
proof -
  let ?c = "plain_cache [(1, 9), (2, 10)]"
  have inv: "cache_inv plain_api ?c" by (rule plain_cache_inv) simp
  have "block_number_hashes ?c k \<noteq> None" if "9 \<le> k" "k \<le> 9" for k
  proof -
    have "k = 9" using that by (rule order_antisym [rotated])
    then show ?thesis by (simp add: plain_cache_def)
  qed
  moreover have "block_number_hashes ?c k = None" if "k < 9" for k
  proof -
    have "k \<noteq> 9" "k \<noteq> 10" using that by auto
    then show ?thesis by (simp add: plain_cache_def default_cache_def)
  qed
  moreover have "get_header ?c 2 = Inr (plain_header 2 10)" by (simp add: plain_cache_def)
  ultimately show ?thesis
    using remove_header_until_contiguous [OF inv, of 9 9 2 "plain_header 2 10"] by simp
qed

text \<open>
  Cleaning stops at the first block number without cached headers: whatever lies below
  such a gap stays in the cache, also in every later cleaning up to a larger number.
\<close>

theorem remove_header_until_stops_at_gap:
  assumes "cache_inv api c" and "block_number_hashes c gap = None" and "gap \<le> n"
    and "get_header c hash = Inr h" and "h_number h < gap"
  shows "get_header (remove_header_until c n) hash = Inr h"
proof -
  have "h_number h \<le> gap" using assms(5) by simp
  with assms(2,3) have "h_number h \<notin> run_below c n" by (auto simp: run_below_def)
  with assms(1,4) show ?thesis by (simp add: data_remove_iff)
qed

theorem remove_header_until_stops_at_gap_witness:
  "get_header (remove_header_until (plain_cache [(1, 5), (2, 6), (3, 9), (4, 10)]) 10) 1 = Inr (plain_header 1 5)"
proof -
  let ?c = "plain_cache [(1, 5), (2, 6), (3, 9), (4, 10)]"
  have inv: "cache_inv plain_api ?c" by (rule plain_cache_inv) simp
  have gap: "block_number_hashes ?c 7 = None"
    by (simp add: plain_cache_def default_cache_def)
  have "get_header ?c 1 = Inr (plain_header 1 5)" by (simp add: plain_cache_def)
  then show ?thesis
    using remove_header_until_stops_at_gap [OF inv gap, of 10 1 "plain_header 1 5"] by simp
qed

end
