(* ===== verification/Tree_Route.thy ===== *)
theory Tree_Route
  imports Header_Cache
begin

text \<open>
  The documented behaviour of \<open>sp_blockchain::tree_route\<close>, the library function the block
  follower calls on its header cache (\<^verbatim>\<open>alerter/src/subspace.rs\<close>, \<open>recursive_tree_route\<close>).
  It is a field of \<open>chain_api\<close>; here are the properties the follower relies on, as the
  predicate \<open>chain_api_ok\<close>, and a reference implementation that shows that they can be met.

  A tree route from one block to another consists of the retracted blocks (from the first
  block back towards the common ancestor), the common ancestor, and the enacted blocks (from
  the common ancestor forward to the second block).
\<close>

section \<open>Lookups\<close>

text \<open>
  A lookup is consistent when it answers with the metadata of the hash it was asked for and
  block numbers count up along the parent links.
\<close>

definition wf_lookup :: "meta_lookup \<Rightarrow> bool" where
  "wf_lookup get \<longleftrightarrow>
     (\<forall>h m. get h = Inr m \<longrightarrow> m_hash m = h) \<and>
     (\<forall>h m m'. get h = Inr m \<longrightarrow> get (m_parent m) = Inr m' \<longrightarrow> unat (m_number m) = Suc (unat (m_number m')))"

inductive ancestor :: "meta_lookup \<Rightarrow> block_hash \<Rightarrow> block_hash \<Rightarrow> bool" for get where
  self: "ancestor get x x"
| up: "get x = Inr m \<Longrightarrow> ancestor get (m_parent m) y \<Longrightarrow> ancestor get x y"

inductive_cases ancestorE: "ancestor get x y"

text \<open>A list of blocks, each the child of the one before, that starts below \<open>p\<close>.\<close>

fun chain_up :: "meta_lookup \<Rightarrow> block_hash \<Rightarrow> hash_and_number list \<Rightarrow> bool" where
  "chain_up get p [] = True"
| "chain_up get p (x # xs) =
     (case get (hn_hash x) of
        Inl _ \<Rightarrow> False
      | Inr m \<Rightarrow> m_number m = hn_number x \<and> m_parent m = p \<and> chain_up get (hn_hash x) xs)"

fun tip :: "block_hash \<Rightarrow> hash_and_number list \<Rightarrow> block_hash" where
  "tip p [] = p"
| "tip p (x # xs) = tip (hn_hash x) xs"

definition route_ok :: "meta_lookup \<Rightarrow> block_hash \<Rightarrow> block_hash \<Rightarrow> tree_route \<Rightarrow> bool" where
  "route_ok get from to r \<longleftrightarrow>
     (\<exists>m. get (hn_hash (tr_common r)) = Inr m \<and> m_number m = hn_number (tr_common r)) \<and>
     chain_up get (hn_hash (tr_common r)) (tr_enacted r) \<and>
     tip (hn_hash (tr_common r)) (tr_enacted r) = to \<and>
     chain_up get (hn_hash (tr_common r)) (rev (tr_retracted r)) \<and>
     tip (hn_hash (tr_common r)) (rev (tr_retracted r)) = from \<and>
     (tr_retracted r \<noteq> [] \<and> tr_enacted r \<noteq> [] \<longrightarrow>
        hn_hash (last (tr_retracted r)) \<noteq> hn_hash (hd (tr_enacted r)))"

section \<open>What the follower relies on\<close>

text \<open>
  On a consistent lookup: a computed route is a route; the only errors are those of the
  lookup, met while walking back from one of the two blocks; and when the lookup holds the
  way from both blocks to a common ancestor, there is no error.
\<close>

definition tree_route_law :: "(meta_lookup \<Rightarrow> block_hash \<Rightarrow> block_hash \<Rightarrow> error + tree_route) \<Rightarrow> bool" where
  "tree_route_law tr \<longleftrightarrow>
     (\<forall>get from to. wf_lookup get \<longrightarrow>
        (\<forall>r. tr get from to = Inr r \<longrightarrow> route_ok get from to r) \<and>
        (\<forall>e. tr get from to = Inl e \<longrightarrow>
           (\<exists>h. get h = Inl e \<and> (ancestor get from h \<or> ancestor get to h))) \<and>
        ((\<exists>a m. ancestor get from a \<and> ancestor get to a \<and> get a = Inr m) \<longrightarrow>
           (\<exists>r. tr get from to = Inr r)))"

text \<open>
  The metadata of a header are its hash, its number and its parent, and a digest survives
  being encoded and decoded.
\<close>

definition chain_api_ok :: "chain_api \<Rightarrow> bool" where
  "chain_api_ok api \<longleftrightarrow>
     (\<forall>h. cached_metadata api h =
        \<lparr>m_hash = header_hash api h, m_number = h_number h, m_parent = h_parent_hash h\<rparr>) \<and>
     (\<forall>d. digest_decode api (digest_encode api d) = Some d) \<and>
     tree_route_law (tree_route_of api)"

section \<open>A reference implementation\<close>

text \<open>
  Walk back from the block with the larger number, then from both, until the two walks meet.
  The branches are kept with the most recently visited block first.
\<close>

definition meta_hn :: "header_meta \<Rightarrow> hash_and_number" where
  "meta_hn m = \<lparr>hn_number = m_number m, hn_hash = m_hash m\<rparr>"

fun walk :: "nat \<Rightarrow> meta_lookup \<Rightarrow> header_meta \<Rightarrow> header_meta \<Rightarrow>
    hash_and_number list \<Rightarrow> hash_and_number list \<Rightarrow> error + tree_route" where
  "walk 0 get f t fb tb = Inl MissingBlock"
| "walk (Suc k) get f t fb tb =
     (if m_number f < m_number t then
        (case get (m_parent t) of Inl e \<Rightarrow> Inl e | Inr t' \<Rightarrow> walk k get f t' fb (meta_hn t # tb))
      else if m_number t < m_number f then
        (case get (m_parent f) of Inl e \<Rightarrow> Inl e | Inr f' \<Rightarrow> walk k get f' t (meta_hn f # fb) tb)
      else if m_hash t = m_hash f then
        Inr \<lparr>tr_retracted = rev fb, tr_common = meta_hn t, tr_enacted = tb\<rparr>
      else
        (case get (m_parent t) of Inl e \<Rightarrow> Inl e
         | Inr t' \<Rightarrow> (case get (m_parent f) of Inl e \<Rightarrow> Inl e
            | Inr f' \<Rightarrow> walk k get f' t' (meta_hn f # fb) (meta_hn t # tb))))"

definition ref_tree_route :: "meta_lookup \<Rightarrow> block_hash \<Rightarrow> block_hash \<Rightarrow> error + tree_route" where
  "ref_tree_route get from to =
     (case get from of Inl e \<Rightarrow> Inl e
      | Inr f \<Rightarrow> (case get to of Inl e \<Rightarrow> Inl e
         | Inr t \<Rightarrow> walk (Suc (unat (m_number f) + unat (m_number t))) get f t [] []))"

lemmas walk_numeral = walk.simps(2) [of "pred_numeral n" for n, folded numeral_eq_Suc]

section \<open>Lemmas about lookups and chains\<close>

lemma wf_lookup_hash: "wf_lookup get \<Longrightarrow> get h = Inr m \<Longrightarrow> m_hash m = h"
  by (simp add: wf_lookup_def)

lemma wf_lookup_number:
  "wf_lookup get \<Longrightarrow> get h = Inr m \<Longrightarrow> get (m_parent m) = Inr m' \<Longrightarrow>
   unat (m_number m) = Suc (unat (m_number m'))"
  by (auto simp: wf_lookup_def)

lemma ancestor_trans: "ancestor get x y \<Longrightarrow> ancestor get y z \<Longrightarrow> ancestor get x z"
  by (induction rule: ancestor.induct) (auto intro: ancestor.up)

lemma ancestor_parent: "ancestor get x y \<Longrightarrow> get y = Inr m \<Longrightarrow> ancestor get x (m_parent m)"
  by (blast intro: ancestor_trans ancestor.up ancestor.self)

lemma ancestor_step:
  "ancestor get x a \<Longrightarrow> x \<noteq> a \<Longrightarrow> get x = Inr m \<Longrightarrow> ancestor get (m_parent m) a"
  by (erule ancestorE) auto

lemma ancestor_defined: "ancestor get x a \<Longrightarrow> get a = Inr ma \<Longrightarrow> \<exists>m. get x = Inr m"
  by (erule ancestorE) auto

lemma ancestor_number:
  assumes "wf_lookup get" and "ancestor get x a" and "get x = Inr mx" and "get a = Inr ma"
  shows "unat (m_number ma) \<le> unat (m_number mx)"
  using assms(2-)
proof (induction arbitrary: mx rule: ancestor.induct)
  case (up x m y)
  then obtain m' where m': "get (m_parent m) = Inr m'" by (blast dest: ancestor_defined)
  with up have "unat (m_number ma) \<le> unat (m_number m')" by blast
  moreover have "unat (m_number m) = Suc (unat (m_number m'))"
    using wf_lookup_number [OF assms(1) up.hyps(1) m'] .
  ultimately show ?case using up by simp
qed simp

lemma chain_up_append:
  "chain_up get p (xs @ ys) \<longleftrightarrow> chain_up get p xs \<and> chain_up get (tip p xs) ys"
  by (induction xs arbitrary: p) (auto split: sum.splits)

lemma tip_append [simp]: "tip p (xs @ ys) = tip (tip p xs) ys"
  by (induction xs arbitrary: p) auto

lemma tip_nonempty: "xs \<noteq> [] \<Longrightarrow> tip p xs = hn_hash (last xs)"
  by (induction xs arbitrary: p) auto

lemma chain_up_number:
  assumes "wf_lookup get" and "get p = Inr m" and "chain_up get p xs"
  shows "\<exists>m'. get (tip p xs) = Inr m' \<and> unat (m_number m') = unat (m_number m) + length xs"
  using assms(2,3)
proof (induction xs arbitrary: p m)
  case (Cons x xs)
  from Cons.prems(2) obtain mx where mx: "get (hn_hash x) = Inr mx" "m_parent mx = p"
    and up: "chain_up get (hn_hash x) xs" by (auto split: sum.splits)
  from wf_lookup_number [OF assms(1) mx(1)] mx Cons.prems(1)
  have "unat (m_number mx) = Suc (unat (m_number m))" by simp
  with Cons.IH [OF mx(1) up] show ?case by auto
qed simp

lemma chain_up_unique:
  "chain_up get p xs \<Longrightarrow> chain_up get q ys \<Longrightarrow> length xs = length ys \<Longrightarrow>
   tip p xs = tip q ys \<Longrightarrow> map hn_hash xs = map hn_hash ys \<and> (xs \<noteq> [] \<longrightarrow> p = q)"
proof (induction xs arbitrary: ys rule: rev_induct)
  case (snoc x xs)
  then obtain y ys' where ys: "ys = ys' @ [y]" by (cases ys rule: rev_cases) auto
  have xs: "chain_up get p xs" and ys': "chain_up get q ys'" and len: "length xs = length ys'"
    and eq: "hn_hash x = hn_hash y"
    using snoc.prems ys by (simp_all add: chain_up_append)
  obtain m where m: "get (hn_hash x) = Inr m" "m_parent m = tip p xs"
    using snoc.prems(1) by (auto simp: chain_up_append split: sum.splits)
  obtain m' where m': "get (hn_hash y) = Inr m'" "m_parent m' = tip q ys'"
    using snoc.prems(2) ys by (auto simp: chain_up_append split: sum.splits)
  from m m' eq have tips: "tip p xs = tip q ys'" by simp
  from snoc.IH [OF xs ys' len tips] eq ys tips len show ?case by auto
qed auto

lemma chain_up_ancestor: "chain_up get p xs \<Longrightarrow> ancestor get (tip p xs) p"
proof (induction xs arbitrary: p)
  case (Cons x xs)
  then obtain m where m: "get (hn_hash x) = Inr m" "m_parent m = p"
    and up: "chain_up get (hn_hash x) xs" by (auto split: sum.splits)
  show ?case using ancestor_parent [OF Cons.IH [OF up] m(1)] m(2) by simp
qed (simp add: ancestor.self)

section \<open>The reference implementation is correct\<close>

definition walk_inv :: "meta_lookup \<Rightarrow> block_hash \<Rightarrow> block_hash \<Rightarrow> header_meta \<Rightarrow> header_meta \<Rightarrow>
    hash_and_number list \<Rightarrow> hash_and_number list \<Rightarrow> bool" where
  "walk_inv get from to f t fb tb \<longleftrightarrow>
     get (m_hash f) = Inr f \<and> get (m_hash t) = Inr t \<and>
     chain_up get (m_hash f) fb \<and> tip (m_hash f) fb = from \<and>
     chain_up get (m_hash t) tb \<and> tip (m_hash t) tb = to \<and>
     (fb \<noteq> [] \<longrightarrow> m_number t \<le> m_number f) \<and> (tb \<noteq> [] \<longrightarrow> m_number f \<le> m_number t) \<and>
     (fb \<noteq> [] \<and> tb \<noteq> [] \<longrightarrow> hn_hash (hd fb) \<noteq> hn_hash (hd tb))"

lemma meta_hn_sel [simp]: "hn_hash (meta_hn m) = m_hash m" "hn_number (meta_hn m) = m_number m"
  by (simp_all add: meta_hn_def)

lemma push_chain:
  "wf_lookup get \<Longrightarrow> get (m_hash t) = Inr t \<Longrightarrow> get (m_parent t) = Inr t' \<Longrightarrow> chain_up get (m_hash t) tb \<Longrightarrow>
   chain_up get (m_hash t') (meta_hn t # tb)"
  by (auto dest: wf_lookup_hash)

lemma parent_lookup:
  "wf_lookup get \<Longrightarrow> get (m_parent t) = Inr t' \<Longrightarrow> get (m_hash t') = Inr t'"
  by (auto dest: wf_lookup_hash)

lemma parent_less:
  "wf_lookup get \<Longrightarrow> get (m_hash t) = Inr t \<Longrightarrow> get (m_parent t) = Inr t' \<Longrightarrow>
   unat (m_number t) = Suc (unat (m_number t'))"
  by (rule wf_lookup_number)

lemma walk_inv_to:
  assumes "wf_lookup get" and "walk_inv get from to f t fb tb" and "m_number f < m_number t"
    and "get (m_parent t) = Inr t'"
  shows "walk_inv get from to f t' fb (meta_hn t # tb)"
  using assms parent_lookup [OF assms(1,4)] parent_less [OF assms(1) _ assms(4)]
    push_chain [OF assms(1) _ assms(4)]
  by (auto simp: walk_inv_def word_less_nat_alt word_le_nat_alt simp del: chain_up.simps)

lemma walk_inv_from:
  assumes "wf_lookup get" and "walk_inv get from to f t fb tb" and "m_number t < m_number f"
    and "get (m_parent f) = Inr f'"
  shows "walk_inv get from to f' t (meta_hn f # fb) tb"
  using assms parent_lookup [OF assms(1,4)] parent_less [OF assms(1) _ assms(4)]
    push_chain [OF assms(1) _ assms(4)]
  by (auto simp: walk_inv_def word_less_nat_alt word_le_nat_alt simp del: chain_up.simps)

lemma walk_inv_both:
  assumes "wf_lookup get" and "walk_inv get from to f t fb tb" and "m_number t = m_number f"
    and "m_hash t \<noteq> m_hash f" and "get (m_parent t) = Inr t'" and "get (m_parent f) = Inr f'"
  shows "walk_inv get from to f' t' (meta_hn f # fb) (meta_hn t # tb)"
proof -
  have "get (m_hash f) = Inr f" "get (m_hash t) = Inr t" using assms(2) by (auto simp: walk_inv_def)
  then have "unat (m_number f') = unat (m_number t')"
    using parent_less [OF assms(1)] assms(3,5,6) by (metis Suc_inject)
  with assms parent_lookup [OF assms(1)] push_chain [OF assms(1)] show ?thesis
    by (auto simp: walk_inv_def word_le_nat_alt simp del: chain_up.simps)
qed

lemma walk_to:
  "m_number f < m_number t \<Longrightarrow> walk (Suc k) get f t fb tb =
     (case get (m_parent t) of Inl e \<Rightarrow> Inl e | Inr t' \<Rightarrow> walk k get f t' fb (meta_hn t # tb))"
  by simp

lemma walk_from:
  "m_number t < m_number f \<Longrightarrow> walk (Suc k) get f t fb tb =
     (case get (m_parent f) of Inl e \<Rightarrow> Inl e | Inr f' \<Rightarrow> walk k get f' t (meta_hn f # fb) tb)"
  by (simp add: order_less_not_sym)

lemma walk_meet:
  "m_number t = m_number f \<Longrightarrow> m_hash t = m_hash f \<Longrightarrow> walk (Suc k) get f t fb tb =
     Inr \<lparr>tr_retracted = rev fb, tr_common = meta_hn t, tr_enacted = tb\<rparr>"
  by simp

lemma walk_both:
  "m_number t = m_number f \<Longrightarrow> m_hash t \<noteq> m_hash f \<Longrightarrow> walk (Suc k) get f t fb tb =
     (case get (m_parent t) of Inl e \<Rightarrow> Inl e
      | Inr t' \<Rightarrow> (case get (m_parent f) of Inl e \<Rightarrow> Inl e
         | Inr f' \<Rightarrow> walk k get f' t' (meta_hn f # fb) (meta_hn t # tb)))"
  by simp

lemma walk_cases:
  obtains (to_ahead) "m_number f < m_number t" | (from_ahead) "m_number t < m_number f"
  | (meet) "m_number t = m_number f" "m_hash t = m_hash f"
  | (both) "m_number t = m_number f" "m_hash t \<noteq> m_hash f"
  by (metis not_less_iff_gr_or_eq)

lemmas walk_unfold = walk_to walk_from walk_meet walk_both

lemma walk_sound:
  assumes "wf_lookup get" and "walk_inv get from to f t fb tb" and "walk k get f t fb tb = Inr r"
  shows "route_ok get from to r"
  using assms(2,3)
proof (induction k arbitrary: f t fb tb)
  case (Suc k)
  note [simp del] = walk.simps
  show ?case
  proof (cases rule: walk_cases [of f t])
    case to_ahead
    then obtain t' where t': "get (m_parent t) = Inr t'" "walk k get f t' fb (meta_hn t # tb) = Inr r"
      using Suc.prems(2) by (auto simp: walk_unfold split: sum.splits)
    with walk_inv_to [OF assms(1) Suc.prems(1) to_ahead] show ?thesis by (blast intro: Suc.IH)
  next
    case from_ahead
    then obtain f' where f': "get (m_parent f) = Inr f'" "walk k get f' t (meta_hn f # fb) tb = Inr r"
      using Suc.prems(2) by (auto simp: walk_unfold split: sum.splits)
    with walk_inv_from [OF assms(1) Suc.prems(1) from_ahead] show ?thesis by (blast intro: Suc.IH)
  next
    case meet
    with Suc.prems(2) have "r = \<lparr>tr_retracted = rev fb, tr_common = meta_hn t, tr_enacted = tb\<rparr>"
      by (simp add: walk_unfold)
    with Suc.prems(1) meet show ?thesis by (auto simp: route_ok_def walk_inv_def last_rev)
  next
    case both
    then obtain t' f' where "get (m_parent t) = Inr t'" "get (m_parent f) = Inr f'"
      "walk k get f' t' (meta_hn f # fb) (meta_hn t # tb) = Inr r"
      using Suc.prems(2) by (auto simp: walk_unfold split: sum.splits)
    with walk_inv_both [OF assms(1) Suc.prems(1) both] show ?thesis by (blast intro: Suc.IH)
  qed
qed simp

lemma walk_error:
  assumes "wf_lookup get" and "walk_inv get from to f t fb tb" and "walk k get f t fb tb = Inl e"
    and "unat (m_number f) + unat (m_number t) < k"
  shows "\<exists>h. get h = Inl e \<and> (ancestor get from h \<or> ancestor get to h)"
  using assms(2-)
proof (induction k arbitrary: f t fb tb)
  case (Suc k)
  note [simp del] = walk.simps
  have f: "get (m_hash f) = Inr f" "ancestor get from (m_hash f)"
    and t: "get (m_hash t) = Inr t" "ancestor get to (m_hash t)"
    using Suc.prems(1) by (auto simp: walk_inv_def dest: chain_up_ancestor)
  note pf = ancestor_parent [OF f(2,1)] and pt = ancestor_parent [OF t(2,1)]
  note lf = parent_less [OF assms(1) f(1)] and lt = parent_less [OF assms(1) t(1)]
  show ?case
  proof (cases rule: walk_cases [of f t])
    case to_ahead
    show ?thesis
    proof (cases "get (m_parent t)")
      case (Inr t')
      with to_ahead Suc.prems(2) have "walk k get f t' fb (meta_hn t # tb) = Inl e" by (simp add: walk_unfold)
      with walk_inv_to [OF assms(1) Suc.prems(1) to_ahead Inr] lt [OF Inr] Suc.prems(3) show ?thesis
        by (intro Suc.IH) auto
    qed (use to_ahead Suc.prems(2) pt in \<open>auto simp: walk_unfold\<close>)
  next
    case from_ahead
    show ?thesis
    proof (cases "get (m_parent f)")
      case (Inr f')
      with from_ahead Suc.prems(2) have "walk k get f' t (meta_hn f # fb) tb = Inl e" by (simp add: walk_unfold)
      with walk_inv_from [OF assms(1) Suc.prems(1) from_ahead Inr] lf [OF Inr] Suc.prems(3) show ?thesis
        by (intro Suc.IH) auto
    qed (use from_ahead Suc.prems(2) pf in \<open>auto simp: walk_unfold\<close>)
  next
    case meet
    with Suc.prems(2) show ?thesis by (simp add: walk_unfold)
  next
    case both
    consider (t) "get (m_parent t) = Inl e" | (f) "get (m_parent f) = Inl e"
      | (go) t' f' where "get (m_parent t) = Inr t'" "get (m_parent f) = Inr f'"
          "walk k get f' t' (meta_hn f # fb) (meta_hn t # tb) = Inl e"
      using both Suc.prems(2) by (auto simp: walk_unfold split: sum.splits)
    then show ?thesis
    proof cases
      case go
      with walk_inv_both [OF assms(1) Suc.prems(1) both go(1,2)] lt [OF go(1)] lf [OF go(2)] Suc.prems(3)
      show ?thesis by (intro Suc.IH) auto
    qed (use pf pt in blast)+
  qed
qed simp

lemma walk_complete:
  assumes "wf_lookup get" and "get a = Inr ma"
    and "ancestor get (m_hash f) a" and "ancestor get (m_hash t) a"
    and "get (m_hash f) = Inr f" and "get (m_hash t) = Inr t"
    and "unat (m_number f) + unat (m_number t) < k"
  shows "\<exists>r. walk k get f t fb tb = Inr r"
  using assms(3-)
proof (induction k arbitrary: f t fb tb)
  case (Suc k)
  note [simp del] = walk.simps
  have step: "\<exists>x'. get (m_parent x) = Inr x' \<and> get (m_hash x') = Inr x' \<and>
      ancestor get (m_hash x') a \<and> unat (m_number x) = Suc (unat (m_number x'))"
    if x: "get (m_hash x) = Inr x" "ancestor get (m_hash x) a" "m_hash x \<noteq> a" for x
  proof -
    from ancestor_step [OF x(2,3,1)] have up: "ancestor get (m_parent x) a" .
    then obtain x' where x': "get (m_parent x) = Inr x'" using ancestor_defined assms(2) by blast
    with up x parent_lookup [OF assms(1) x'] parent_less [OF assms(1) x(1) x']
      wf_lookup_hash [OF assms(1) x'] show ?thesis by auto
  qed
  have small: "unat (m_number ma) \<le> unat (m_number f)" "unat (m_number ma) \<le> unat (m_number t)"
    using ancestor_number [OF assms(1)] assms(2) Suc.prems by blast+
  have at_a: "m_number x = m_number ma" if "get (m_hash x) = Inr x" "m_hash x = a" for x
    using that assms(2) by simp
  show ?case
  proof (cases rule: walk_cases [of f t])
    case to_ahead
    with small have "m_hash t \<noteq> a" using at_a [of t] Suc.prems by (auto simp: word_less_nat_alt)
    with step [of t] Suc.prems obtain t' where "get (m_parent t) = Inr t'" "get (m_hash t') = Inr t'"
      "ancestor get (m_hash t') a" "unat (m_number t) = Suc (unat (m_number t'))" by blast
    with Suc.IH [of f t'] Suc.prems to_ahead show ?thesis by (simp add: walk_unfold)
  next
    case from_ahead
    with small have "m_hash f \<noteq> a" using at_a [of f] Suc.prems by (auto simp: word_less_nat_alt)
    with step [of f] Suc.prems obtain f' where "get (m_parent f) = Inr f'" "get (m_hash f') = Inr f'"
      "ancestor get (m_hash f') a" "unat (m_number f) = Suc (unat (m_number f'))" by blast
    with Suc.IH [of f' t] Suc.prems from_ahead show ?thesis by (simp add: walk_unfold)
  next
    case meet
    then show ?thesis by (simp add: walk_unfold)
  next
    case both
    have "m_hash t \<noteq> a \<and> m_hash f \<noteq> a"
    proof (rule ccontr)
      assume "\<not> (m_hash t \<noteq> a \<and> m_hash f \<noteq> a)"
      then consider "m_hash t = a" "m_hash f \<noteq> a" | "m_hash f = a" "m_hash t \<noteq> a" using both by auto
      then show False
      proof cases
        case 1
        with step [of f] Suc.prems obtain f' where "ancestor get (m_hash f') a" "get (m_hash f') = Inr f'"
          "unat (m_number f) = Suc (unat (m_number f'))" by blast
        with ancestor_number [OF assms(1)] assms(2) at_a [of t] 1 Suc.prems both show False by fastforce
      next
        case 2
        with step [of t] Suc.prems obtain t' where "ancestor get (m_hash t') a" "get (m_hash t') = Inr t'"
          "unat (m_number t) = Suc (unat (m_number t'))" by blast
        with ancestor_number [OF assms(1)] assms(2) at_a [of f] 2 Suc.prems both show False by fastforce
      qed
    qed
    with step [of t] step [of f] Suc.prems obtain t' f' where
      "get (m_parent t) = Inr t'" "get (m_hash t') = Inr t'" "ancestor get (m_hash t') a"
      "unat (m_number t) = Suc (unat (m_number t'))"
      "get (m_parent f) = Inr f'" "get (m_hash f') = Inr f'" "ancestor get (m_hash f') a"
      "unat (m_number f) = Suc (unat (m_number f'))" by blast
    with Suc.IH [of f' t'] Suc.prems both show ?thesis by (simp add: walk_unfold)
  qed
qed simp

lemma walk_inv_start:
  "wf_lookup get \<Longrightarrow> get from = Inr f \<Longrightarrow> get to = Inr t \<Longrightarrow> walk_inv get from to f t [] []"
  by (auto simp: walk_inv_def dest: wf_lookup_hash)

lemma ref_tree_route_law: "tree_route_law ref_tree_route"
  unfolding tree_route_law_def
proof (intro allI impI conjI)
  fix get "from" to r
  assume wf: "wf_lookup get" and "ref_tree_route get from to = Inr r"
  then show "route_ok get from to r"
    by (auto simp: ref_tree_route_def simp del: walk.simps split: sum.splits
        intro: walk_sound [OF wf walk_inv_start [OF wf]])
next
  fix get "from" to e
  assume wf: "wf_lookup get" and "ref_tree_route get from to = Inl e"
  then show "\<exists>h. get h = Inl e \<and> (ancestor get from h \<or> ancestor get to h)"
    by (auto simp: ref_tree_route_def simp del: walk.simps split: sum.splits
        intro: ancestor.self walk_error [OF wf walk_inv_start [OF wf]])
next
  fix get "from" to
  assume wf: "wf_lookup get" and "\<exists>a m. ancestor get from a \<and> ancestor get to a \<and> get a = Inr m"
  then obtain a ma f t where "ancestor get from a" "ancestor get to a" "get a = Inr ma"
    "get from = Inr f" "get to = Inr t" by (meson ancestor_defined)
  moreover from this have "m_hash f = from" "m_hash t = to" by (auto dest: wf_lookup_hash [OF wf])
  ultimately show "\<exists>r. ref_tree_route get from to = Inr r"
    using walk_complete [OF wf, of a ma f t] by (simp add: ref_tree_route_def del: walk.simps)
qed

end
