(* ===== verification/Block_Listener.thy ===== *)
theory Block_Listener
  imports Tree_Route
begin

text \<open>
  The block follower of \<^verbatim>\<open>alerter/src/subspace.rs\<close>: it subscribes to all imported blocks,
  keeps the header cache, finds the route from the previous best block to the new one and
  broadcasts the enacted blocks with the reorg data.

  The node is asked over RPC.  Its answers while one subscription item is processed are a
  record of functions, \<open>node\<close>; every item of the subscription comes with the answers the node
  gives while that item is processed, so the node's view may change between items.  A
  subscription is a finite sequence of such items (what has been received so far); the closing
  of the stream is an item of its own.  \<open>recursive_tree_route\<close> asks for missing headers until
  the route is found; it is a partial function, \<open>None\<close> meaning that it never returns.
\<close>

record node =
  chain_get_block_hash :: "block_number \<Rightarrow> string + block_hash option"
  chain_get_header :: "block_hash \<Rightarrow> string + substrate_header option"

record sub_block =
  sb_hash :: block_hash
  sb_number :: block_number
  sb_header :: substrate_header

datatype sub_item = SubBlock sub_block | SubError string | SubClosed

type_synonym subscription = "(node \<times> sub_item) list"

record block_ext =
  be_number :: block_number
  be_hash :: block_hash
  be_parent_hash :: block_hash
  be_state_root :: block_hash
  be_extrinsics_root :: block_hash

record reorg_data =
  rd_enacted :: "hash_and_number list"
  rd_retracted :: "hash_and_number list"
  rd_common_block :: hash_and_number

record blocks_ext =
  bx_blocks :: "block_ext list"
  bx_maybe_reorg_data :: "reorg_data option"

definition CACHE_HEADER_DEPTH :: u32 where
  "CACHE_HEADER_DEPTH = 100"

section \<open>Single operations\<close>

definition is_canonical_block :: "node \<Rightarrow> block_number \<Rightarrow> block_hash \<Rightarrow> bool result" where
  "is_canonical_block nd number hash =
     bind_res (try_from ForRpc (chain_get_block_hash nd number))
       (\<lambda>mh. bind_res (ok_or MissingBlock mh) (\<lambda>h. Inr (hash = h)))"

definition get_block_ext :: "headers_metadata_cache \<Rightarrow> block_hash \<Rightarrow> block_ext result" where
  "get_block_ext c hash =
     bind_res (get_header c hash)
       (\<lambda>h. Inr \<lparr>be_number = h_number h, be_hash = hash, be_parent_hash = h_parent_hash h,
                 be_state_root = h_state_root h, be_extrinsics_root = h_extrinsics_root h\<rparr>)"

definition fetch_header :: "node \<Rightarrow> block_hash \<Rightarrow> substrate_header result" where
  "fetch_header nd hash =
     bind_res (try_from ForRpc (chain_get_header nd hash)) (ok_or MissingBlock)"

partial_function (option) recursive_tree_route ::
  "chain_api \<Rightarrow> node \<Rightarrow> headers_metadata_cache \<Rightarrow> block_hash \<Rightarrow> block_hash \<Rightarrow>
   (headers_metadata_cache \<times> tree_route result) option" where
  "recursive_tree_route api nd c from to =
     (case tree_route_of api (header_metadata api c) from to of
        Inr r \<Rightarrow> Some (c, Inr r)
      | Inl err \<Rightarrow>
          (case err of
             MissingBlockHashFromCache hash \<Rightarrow>
               (case bind_res (fetch_header nd hash) (add_header api c) of
                  Inl f \<Rightarrow> Some (c, Inl f)
                | Inr hc \<Rightarrow> recursive_tree_route api nd (snd hc) from to)
           | _ \<Rightarrow> Some (c, Inl (Err err))))"

section \<open>Following one subscription\<close>

record follower =
  fo_cache :: headers_metadata_cache
  fo_best :: hash_and_number

text \<open>What is broadcast for a route, and the state afterwards.\<close>

definition reorg_data_of :: "tree_route \<Rightarrow> reorg_data option" where
  "reorg_data_of r =
     (if tr_retracted r \<noteq> [] then
        Some \<lparr>rd_enacted = butlast (tr_enacted r), rd_retracted = rev (tr_retracted r),
              rd_common_block = tr_common r\<rparr>
      else None)"

definition enact_route ::
  "follower \<Rightarrow> headers_metadata_cache \<Rightarrow> block_number \<Rightarrow> tree_route \<Rightarrow>
   (follower, blocks_ext, error failure) step_result" where
  "enact_route st c number r =
     (if tr_enacted r = [] \<and> tr_retracted r = [] then (st\<lparr>fo_cache := c\<rparr>, [], None)
      else if tr_enacted r = [] then (st\<lparr>fo_cache := c\<rparr>, [], None)
      else
        (case try_collect (map (\<lambda>hn. get_block_ext c (hn_hash hn)) (tr_enacted r)) of
           Inl f \<Rightarrow> (st\<lparr>fo_cache := c\<rparr>, [], Some f)
         | Inr exts \<Rightarrow>
             (\<lparr>fo_cache = remove_header_until c (saturating_sub number CACHE_HEADER_DEPTH),
               fo_best = last (tr_enacted r)\<rparr>,
              [\<lparr>bx_blocks = exts, bx_maybe_reorg_data = reorg_data_of r\<rparr>], None)))"

definition import_block ::
  "chain_api \<Rightarrow> node \<Rightarrow> follower \<Rightarrow> sub_block \<Rightarrow> (follower, blocks_ext, error failure) step_result" where
  "import_block api nd st b =
     (case add_header api (fo_cache st) (sb_header b) of
        Inl f \<Rightarrow> (st, [], Some f)
      | Inr (hash, c) \<Rightarrow>
          if hash \<noteq> sb_hash b then (st\<lparr>fo_cache := c\<rparr>, [], Some (Panic ''assertion `left == right` failed''))
          else
            (case is_canonical_block nd (sb_number b) (sb_hash b) of
               Inl f \<Rightarrow> (st\<lparr>fo_cache := c\<rparr>, [], Some f)
             | Inr False \<Rightarrow> (st\<lparr>fo_cache := c\<rparr>, [], None)
             | Inr True \<Rightarrow>
                 (case recursive_tree_route api nd c (hn_hash (fo_best st)) (sb_hash b) of
                    None \<Rightarrow> (st\<lparr>fo_cache := c\<rparr>, [], Some Diverge)
                  | Some (c', Inl f) \<Rightarrow> (st\<lparr>fo_cache := c'\<rparr>, [], Some f)
                  | Some (c', Inr r) \<Rightarrow> enact_route st c' (sb_number b) r)))"

fun listen_step ::
  "chain_api \<Rightarrow> follower \<Rightarrow> node \<times> sub_item \<Rightarrow> (follower, blocks_ext, error failure) step_result" where
  "listen_step api st (nd, SubClosed) = (st, [], Some (Err MissingBlock))"
| "listen_step api st (nd, SubError e) = (st, [], Some (Err (error_from (ForSubxt e))))"
| "listen_step api st (nd, SubBlock b) = import_block api nd st b"

definition listen_for_blocks ::
  "chain_api \<Rightarrow> follower \<Rightarrow> subscription \<Rightarrow> (follower, blocks_ext, error failure) step_result" where
  "listen_for_blocks api st sub = run_loop (listen_step api) st sub"

section \<open>Loading the cache\<close>

text \<open>The first canonical block of the subscription, and what is left of it; \<open>None\<close>: still waiting.\<close>

fun first_canonical :: "subscription \<Rightarrow> (block_hash \<times> subscription) result option" where
  "first_canonical [] = None"
| "first_canonical ((nd, SubClosed) # sub) = Some (Inl (Err MissingBlock))"
| "first_canonical ((nd, SubError e) # sub) = Some (Inl (Err (error_from (ForSubxt e))))"
| "first_canonical ((nd, SubBlock b) # sub) =
     (case is_canonical_block nd (sb_number b) (sb_hash b) of
        Inl f \<Rightarrow> Some (Inl f)
      | Inr True \<Rightarrow> Some (Inr (sb_hash b, sub))
      | Inr False \<Rightarrow> first_canonical sub)"

definition canonical_header :: "node \<Rightarrow> block_number \<Rightarrow> substrate_header result" where
  "canonical_header nd number =
     bind_res (try_from ForRpc (chain_get_block_hash nd number))
       (\<lambda>mh. bind_res (ok_or MissingBlock mh) (fetch_header nd))"

fun add_headers :: "chain_api \<Rightarrow> headers_metadata_cache \<Rightarrow> substrate_header list \<Rightarrow> headers_metadata_cache result" where
  "add_headers api c [] = Inr c"
| "add_headers api c (sh # shs) = bind_res (add_header api c sh) (\<lambda>hc. add_headers api (snd hc) shs)"

definition load_range :: "chain_api \<Rightarrow> node \<Rightarrow> headers_metadata_cache \<Rightarrow> block_hash \<Rightarrow> follower result" where
  "load_range api nd c latest_hash =
     bind_res (fetch_header nd latest_hash) (\<lambda>latest_head.
       let start = saturating_sub (sh_number latest_head) CACHE_HEADER_DEPTH in
       bind_res (try_collect (map (canonical_header nd) (range_incl start (sh_number latest_head))))
         (\<lambda>hs. bind_res (add_headers api c hs)
            (\<lambda>c'. Inr \<lparr>fo_cache = c',
                      fo_best = \<lparr>hn_number = sh_number latest_head, hn_hash = latest_hash\<rparr>\<rparr>)))"

text \<open>\<open>nd\<close> answers the requests made once the first canonical block is known.\<close>

definition load_header_metadata_cache ::
  "chain_api \<Rightarrow> node \<Rightarrow> headers_metadata_cache \<Rightarrow> subscription \<Rightarrow> (follower \<times> subscription) result option" where
  "load_header_metadata_cache api nd c sub =
     map_option (\<lambda>r. bind_res r (\<lambda>(hash, rest). bind_res (load_range api nd c hash) (\<lambda>st. Inr (st, rest))))
       (first_canonical sub)"

section \<open>The outer loop with reconnection\<close>

record session =
  se_subscribe :: "string + subscription"
  se_load_node :: node

text \<open>
  One round of the outer loop: the new cache, the broadcasts, and whether it ends
  (\<open>Some\<close> the failure) or is still waiting (\<open>None\<close>).
\<close>

definition listen_session ::
  "chain_api \<Rightarrow> headers_metadata_cache \<Rightarrow> session \<Rightarrow> (headers_metadata_cache, blocks_ext, bool \<times> error failure) step_result" where
  "listen_session api c se =
     (case try_from ForSubxt (se_subscribe se) of
        Inl f \<Rightarrow> (c, [], Some (False, f))
      | Inr sub \<Rightarrow>
          (case load_header_metadata_cache api (se_load_node se) c sub of
             None \<Rightarrow> (c, [], None)
           | Some (Inl f) \<Rightarrow> (c, [], Some (False, f))
           | Some (Inr (st, rest)) \<Rightarrow>
               (case listen_for_blocks api st rest of
                  (st', os, r) \<Rightarrow> (fo_cache st', os, map_option (Pair True) r))))"

text \<open>The first component of the outcome says whether the failure comes from \<open>listen_for_blocks\<close>.\<close>

definition reconnects :: "bool \<times> error failure \<Rightarrow> bool" where
  "reconnects r = (case r of (True, Err (Rpc _)) \<Rightarrow> True | _ \<Rightarrow> False)"

fun listen_for_all_blocks ::
  "chain_api \<Rightarrow> headers_metadata_cache \<Rightarrow> session list \<Rightarrow> blocks_ext list \<times> error failure option" where
  "listen_for_all_blocks api c [] = ([], None)"
| "listen_for_all_blocks api c (se # ses) =
     (case listen_session api c se of
        (c', os, None) \<Rightarrow> (os, None)
      | (c', os, Some r) \<Rightarrow>
          if reconnects r then
            (case listen_for_all_blocks api c' ses of (os', r') \<Rightarrow> (os @ os', r'))
          else (os, Some (snd r)))"

section \<open>What the environment promises\<close>

text \<open>
  \<open>U\<close> is the set of headers that exist: no two of them have the same hash, and a header's
  number is one more than its parent's.  The node answers a request for a hash with the
  header of that hash, and the subscription delivers blocks under their own hash and number.
\<close>

definition headers_ok :: "chain_api \<Rightarrow> header set \<Rightarrow> bool" where
  "headers_ok api U \<longleftrightarrow>
     inj_on (header_hash api) U \<and>
     (\<forall>h\<in>U. \<forall>p\<in>U. h_parent_hash h = header_hash api p \<longrightarrow> unat (h_number h) = Suc (unat (h_number p)))"

definition is_header_of :: "chain_api \<Rightarrow> header set \<Rightarrow> substrate_header \<Rightarrow> block_hash \<Rightarrow> bool" where
  "is_header_of api U sh hash \<longleftrightarrow>
     (\<exists>h\<in>U. rebuild_header api sh = Inr h \<and> header_hash api h = hash)"

definition node_ok :: "chain_api \<Rightarrow> header set \<Rightarrow> node \<Rightarrow> bool" where
  "node_ok api U nd \<longleftrightarrow>
     (\<forall>hash sh. chain_get_header nd hash = Inr (Some sh) \<longrightarrow> is_header_of api U sh hash)"

definition item_ok :: "chain_api \<Rightarrow> header set \<Rightarrow> node \<times> sub_item \<Rightarrow> bool" where
  "item_ok api U x \<longleftrightarrow>
     node_ok api U (fst x) \<and>
     (\<forall>b. snd x = SubBlock b \<longrightarrow>
        is_header_of api U (sb_header b) (sb_hash b) \<and> sh_number (sb_header b) = sb_number b)"

definition cache_within :: "chain_api \<Rightarrow> header set \<Rightarrow> headers_metadata_cache \<Rightarrow> bool" where
  "cache_within api U c \<longleftrightarrow> cache_inv api c \<and> ran (block_header_data c) \<subseteq> U"

text \<open>The follower's environment and state together.\<close>

definition follower_ok :: "chain_api \<Rightarrow> header set \<Rightarrow> follower \<Rightarrow> bool" where
  "follower_ok api U st \<longleftrightarrow>
     chain_api_ok api \<and> headers_ok api U \<and> cache_within api U (fo_cache st)"

text \<open>The failures that remain: the node cannot be reached or does not have a block.\<close>

definition node_failure :: "error failure \<Rightarrow> bool" where
  "node_failure f \<longleftrightarrow> (\<exists>e. f = Err (Rpc e)) \<or> (\<exists>e. f = Err (Subxt e)) \<or> f = Err MissingBlock"

section \<open>Chains of existing headers\<close>

fun hlinked :: "chain_api \<Rightarrow> header set \<Rightarrow> block_hash \<Rightarrow> block_hash list \<Rightarrow> bool" where
  "hlinked api U p [] = True"
| "hlinked api U p (y # ys) =
     ((\<exists>h\<in>U. header_hash api h = y \<and> h_parent_hash h = p) \<and> hlinked api U y ys)"

definition genuine_ext :: "chain_api \<Rightarrow> header set \<Rightarrow> block_ext \<Rightarrow> bool" where
  "genuine_ext api U b \<longleftrightarrow>
     (\<exists>h\<in>U. header_hash api h = be_hash b \<and> h_number h = be_number b \<and>
        h_parent_hash h = be_parent_hash b \<and> h_state_root h = be_state_root b \<and>
        h_extrinsics_root h = be_extrinsics_root b)"

text \<open>The hashes a consumer of the broadcasts drops and the block its new ones build on.\<close>

definition retracted_hashes :: "blocks_ext \<Rightarrow> block_hash list" where
  "retracted_hashes bx =
     (case bx_maybe_reorg_data bx of None \<Rightarrow> [] | Some rd \<Rightarrow> map hn_hash (rd_retracted rd))"

definition base_hash :: "block_hash \<Rightarrow> blocks_ext \<Rightarrow> block_hash" where
  "base_hash best bx =
     (case bx_maybe_reorg_data bx of None \<Rightarrow> best | Some rd \<Rightarrow> hn_hash (rd_common_block rd))"

text \<open>The identity of a broadcast block, and an identity whose hash and number are those of a header.\<close>

definition ext_id :: "block_ext \<Rightarrow> hash_and_number" where
  "ext_id b = \<lparr>hn_number = be_number b, hn_hash = be_hash b\<rparr>"

definition genuine_id :: "chain_api \<Rightarrow> header set \<Rightarrow> hash_and_number \<Rightarrow> bool" where
  "genuine_id api U x \<longleftrightarrow> (\<exists>h\<in>U. header_hash api h = hn_hash x \<and> h_number h = hn_number x)"

text \<open>
  The data of a reorg lists the broadcast blocks but the last as enacted, and existing blocks
  with their numbers as retracted.
\<close>

definition reorg_data_ok :: "chain_api \<Rightarrow> header set \<Rightarrow> blocks_ext \<Rightarrow> bool" where
  "reorg_data_ok api U bx \<longleftrightarrow>
     pred_option (\<lambda>rd. rd_enacted rd = map ext_id (butlast (bx_blocks bx)) \<and>
       list_all (genuine_id api U) (rd_retracted rd)) (bx_maybe_reorg_data bx)"

definition broadcast_ok :: "chain_api \<Rightarrow> header set \<Rightarrow> block_hash \<Rightarrow> block_hash \<Rightarrow> blocks_ext \<Rightarrow> bool" where
  "broadcast_ok api U best best' bx \<longleftrightarrow>
     bx_blocks bx \<noteq> [] \<and>
     list_all (genuine_ext api U) (bx_blocks bx) \<and>
     hlinked api U (base_hash best bx) (map be_hash (bx_blocks bx)) \<and>
     be_hash (last (bx_blocks bx)) = best' \<and>
     hlinked api U (base_hash best bx) (retracted_hashes bx) \<and>
     last (base_hash best bx # retracted_hashes bx) = best \<and>
     reorg_data_ok api U bx"

text \<open>
  A consumer that keeps its own copy of the best chain, as hashes with the oldest first:
  it drops as many blocks as were retracted and appends the broadcast ones.
\<close>

definition replay :: "block_hash list \<Rightarrow> blocks_ext \<Rightarrow> block_hash list" where
  "replay view bx =
     take (length view - length (retracted_hashes bx)) view @ map be_hash (bx_blocks bx)"

text \<open>No reorg goes back further than the consumer's copy.\<close>

fun covered :: "nat \<Rightarrow> blocks_ext list \<Rightarrow> bool" where
  "covered n [] = True"
| "covered n (bx # bxs) =
     (length (retracted_hashes bx) < n \<and>
      covered (n - length (retracted_hashes bx) + length (bx_blocks bx)) bxs)"

definition chain_view :: "chain_api \<Rightarrow> header set \<Rightarrow> block_hash list \<Rightarrow> block_hash \<Rightarrow> bool" where
  "chain_view api U view best \<longleftrightarrow> view \<noteq> [] \<and> hlinked api U (hd view) (tl view) \<and> last view = best"

lemma header_unique:
  "headers_ok api U \<Longrightarrow> g \<in> U \<Longrightarrow> h \<in> U \<Longrightarrow> header_hash api g = header_hash api h \<Longrightarrow> g = h"
  by (auto simp: headers_ok_def dest: inj_onD)

section \<open>The cache as a lookup\<close>

lemma cache_within_iff: "cache_within api U c \<longleftrightarrow> hc.within api U c"
  by (auto simp: cache_within_def hc.within_def ran_def)

lemma cache_within_insert:
  "cache_within api U c \<Longrightarrow> headers_ok api U \<Longrightarrow> h \<in> U \<Longrightarrow> cache_within api U (insert_header api c h)"
  by (simp add: cache_within_iff headers_ok_def hc.within_add)

lemma cache_within_remove: "cache_within api U c \<Longrightarrow> cache_within api U (remove_header_until c n)"
  by (simp add: cache_within_iff hc.within_clean)

lemma cache_within_lookup:
  "cache_within api U c \<Longrightarrow> block_header_data c hash = Some h \<Longrightarrow> h \<in> U \<and> header_hash api h = hash"
  by (auto simp: cache_within_def cache_inv_def ran_def dest: cache_indexedD)

lemma cached_metadata_eq:
  "chain_api_ok api \<Longrightarrow> cached_metadata api h =
     \<lparr>m_hash = header_hash api h, m_number = h_number h, m_parent = h_parent_hash h\<rparr>"
  by (simp add: chain_api_ok_def)

lemma header_metadata_within:
  assumes "chain_api_ok api" and "cache_within api U c"
  shows "header_metadata api c hash = Inr m \<longleftrightarrow>
    (\<exists>h\<in>U. block_header_data c hash = Some h \<and> header_hash api h = hash \<and>
       m = \<lparr>m_hash = hash, m_number = h_number h, m_parent = h_parent_hash h\<rparr>)"
  using assms(1) cache_within_lookup [OF assms(2)]
  by (auto simp: header_metadata_Inr cached_metadata_eq)

lemma cache_wf_lookup:
  assumes "chain_api_ok api" and "headers_ok api U" and "cache_within api U c"
  shows "wf_lookup (header_metadata api c)"
  using assms(2)
  by (auto simp: wf_lookup_def header_metadata_within [OF assms(1,3)] headers_ok_def)

lemma rebuild_header_total: "chain_api_ok api \<Longrightarrow> \<exists>h. rebuild_header api sh = Inr h"
  by (simp add: chain_api_ok_def rebuild_header_def res_simps)

lemma fetch_header_Inr: "fetch_header nd hash = Inr sh \<longleftrightarrow> chain_get_header nd hash = Inr (Some sh)"
  by (auto simp: fetch_header_def res_simps split: sum.splits option.splits)

lemma fetch_header_Inl: "fetch_header nd hash = Inl f \<Longrightarrow> node_failure f"
  by (auto simp: fetch_header_def res_simps node_failure_def split: sum.splits option.splits)

lemma is_canonical_block_Inl: "is_canonical_block nd n hash = Inl f \<Longrightarrow> node_failure f"
  by (auto simp: is_canonical_block_def res_simps node_failure_def split: sum.splits option.splits)

lemma is_canonical_block_Inr:
  "is_canonical_block nd n hash = Inr b \<longleftrightarrow>
   (\<exists>h. chain_get_block_hash nd n = Inr (Some h) \<and> b = (hash = h))"
  by (auto simp: is_canonical_block_def res_simps split: sum.splits option.splits)

section \<open>The recursive tree route\<close>

text \<open>
  The outcome the follower builds on: it returns, the cache has only grown, the route is a
  route of the final cache, and a failure is one of the node.
\<close>

definition route_outcome ::
  "chain_api \<Rightarrow> header set \<Rightarrow> headers_metadata_cache \<Rightarrow> block_hash \<Rightarrow> block_hash \<Rightarrow>
   headers_metadata_cache \<times> tree_route result \<Rightarrow> bool" where
  "route_outcome api U c from to x \<longleftrightarrow>
     cache_within api U (fst x) \<and> block_header_data c \<subseteq>\<^sub>m block_header_data (fst x) \<and>
     (case snd x of
        Inr r \<Rightarrow> route_ok (header_metadata api (fst x)) from to r
      | Inl f \<Rightarrow> node_failure f)"

lemma tree_route_of_Inl:
  assumes "chain_api_ok api" and "headers_ok api U" and "cache_within api U c"
    and "tree_route_of api (header_metadata api c) from to = Inl e"
  shows "\<exists>hash. e = MissingBlockHashFromCache hash \<and> block_header_data c hash = None"
proof -
  from assms obtain h where "header_metadata api c h = Inl e"
    using cache_wf_lookup [OF assms(1-3)] unfolding chain_api_ok_def tree_route_law_def by meson
  then show ?thesis by (auto simp: header_metadata_Inl cached_hashes_def)
qed

lemma recursive_tree_route_returns:
  assumes api: "chain_api_ok api" and U: "headers_ok api U" and nd: "node_ok api U nd"
    and "cache_within api U c"
  shows "\<exists>x. recursive_tree_route api nd c from to = Some x \<and> route_outcome api U c from to x"
  using assms(4)
proof (induction "card (- dom (block_header_data c))" arbitrary: c rule: less_induct)
  case less
  note wf = cache_wf_lookup [OF api U less.prems]
  show ?case
  proof (cases "tree_route_of api (header_metadata api c) from to")
    case (Inr r)
    with wf api have "route_ok (header_metadata api c) from to r"
      by (simp add: chain_api_ok_def tree_route_law_def)
    with Inr less.prems show ?thesis
      by (subst recursive_tree_route.simps) (simp add: route_outcome_def)
  next
    case (Inl e)
    with tree_route_of_Inl [OF api U less.prems] obtain hash
      where e: "e = MissingBlockHashFromCache hash" and miss: "block_header_data c hash = None" by blast
    show ?thesis
    proof (cases "fetch_header nd hash")
      case (Inl f)
      then show ?thesis
        using \<open>tree_route_of _ _ _ _ = Inl e\<close> e less.prems fetch_header_Inl [OF Inl]
        by (subst recursive_tree_route.simps) (simp add: route_outcome_def)
    next
      case (Inr sh)
      with nd have "is_header_of api U sh hash" by (simp add: node_ok_def fetch_header_Inr)
      then obtain h where h: "h \<in> U" "rebuild_header api sh = Inr h" "header_hash api h = hash"
        by (auto simp: is_header_of_def)
      let ?c = "insert_header api c h"
      have unfold: "recursive_tree_route api nd c from to = recursive_tree_route api nd ?c from to"
        using \<open>tree_route_of _ _ _ _ = Inl e\<close> e Inr h
        by (subst recursive_tree_route.simps) (simp add: add_header_def)
      have "card (- dom (block_header_data ?c)) < card (- dom (block_header_data c))"
        using hc.add_missing_progress [of c api h] miss h(3) by simp
      moreover have "cache_within api U ?c"
        using less.prems U h(1) by (rule cache_within_insert)
      ultimately obtain x where x: "recursive_tree_route api nd ?c from to = Some x"
        "route_outcome api U ?c from to x" using less.hyps by blast
      have "block_header_data c \<subseteq>\<^sub>m block_header_data ?c"
        using miss h(3) by (auto simp: map_le_def)
      with x unfold show ?thesis by (auto simp: route_outcome_def intro: map_le_trans)
    qed
  qed
qed

section \<open>Routes and broadcasts\<close>

lemma tip_last: "tip p xs = last (p # map hn_hash xs)"
  by (induction xs arbitrary: p) auto

lemma chain_up_hlinked:
  assumes "chain_api_ok api" and "cache_within api U c" and "chain_up (header_metadata api c) p xs"
  shows "hlinked api U p (map hn_hash xs)"
  using assms(3)
  by (induction xs arbitrary: p)
    (auto simp: header_metadata_within [OF assms(1,2)] split: sum.splits)

lemma get_block_ext_genuine:
  assumes "cache_within api U c" and "block_header_data c hash = Some h"
  shows "\<exists>b. get_block_ext c hash = Inr b \<and> be_hash b = hash \<and> be_number b = h_number h \<and> genuine_ext api U b"
  using assms cache_within_lookup [OF assms]
  by (auto simp: get_block_ext_def get_header_def res_simps genuine_ext_def)

lemma chain_up_exts:
  assumes "chain_api_ok api" and "cache_within api U c" and "chain_up (header_metadata api c) p xs"
  shows "\<exists>exts. try_collect (map (\<lambda>hn. get_block_ext c (hn_hash hn)) xs) = Inr exts \<and>
    map be_hash exts = map hn_hash xs \<and> map be_number exts = map hn_number xs \<and>
    list_all (genuine_ext api U) exts"
  using assms(3)
proof (induction xs arbitrary: p)
  case (Cons x xs)
  then obtain h where h: "block_header_data c (hn_hash x) = Some h" "h_number h = hn_number x"
    and up: "chain_up (header_metadata api c) (hn_hash x) xs"
    by (auto simp: header_metadata_within [OF assms(1,2)] split: sum.splits)
  from Cons.IH [OF up] get_block_ext_genuine [OF assms(2) h(1)] h(2) show ?case by fastforce
qed simp

lemma chain_up_genuine:
  assumes "chain_api_ok api" and "cache_within api U c" and "chain_up (header_metadata api c) p xs"
  shows "list_all (genuine_id api U) xs"
  using assms(3)
proof (induction xs arbitrary: p)
  case (Cons x xs)
  then obtain h where h: "block_header_data c (hn_hash x) = Some h" "h_number h = hn_number x"
    and up: "chain_up (header_metadata api c) (hn_hash x) xs"
    by (auto simp: header_metadata_within [OF assms(1,2)] split: sum.splits)
  from Cons.IH [OF up] cache_within_lookup [OF assms(2) h(1)] h(2) show ?case by (auto simp: genuine_id_def)
qed simp

lemma ext_ids:
  "map be_hash exts = map hn_hash xs \<Longrightarrow> map be_number exts = map hn_number xs \<Longrightarrow> map ext_id exts = xs"
  by (induction exts arbitrary: xs) (auto simp: ext_id_def Cons_eq_map_conv)

lemma reorg_data_hashes:
  "retracted_hashes \<lparr>bx_blocks = exts, bx_maybe_reorg_data = reorg_data_of r\<rparr> = rev (map hn_hash (tr_retracted r))"
  "base_hash (hn_hash (last (tr_common r # rev (tr_retracted r)))) \<lparr>bx_blocks = exts, bx_maybe_reorg_data = reorg_data_of r\<rparr> =
   hn_hash (tr_common r)"
  by (simp_all add: retracted_hashes_def base_hash_def reorg_data_of_def rev_map)

lemma enact_route_broadcast:
  assumes api: "chain_api_ok api" and c: "cache_within api U c"
    and r: "route_ok (header_metadata api c) (hn_hash (fo_best st)) to r" and ne: "tr_enacted r \<noteq> []"
  shows "\<exists>exts. enact_route st c n r =
      (\<lparr>fo_cache = remove_header_until c (saturating_sub n CACHE_HEADER_DEPTH), fo_best = last (tr_enacted r)\<rparr>,
       [\<lparr>bx_blocks = exts, bx_maybe_reorg_data = reorg_data_of r\<rparr>], None) \<and>
    map be_hash exts = map hn_hash (tr_enacted r) \<and> map be_number exts = map hn_number (tr_enacted r) \<and>
    hn_hash (last (tr_enacted r)) = to \<and> be_number (last exts) = hn_number (last (tr_enacted r)) \<and>
    broadcast_ok api U (hn_hash (fo_best st)) to \<lparr>bx_blocks = exts, bx_maybe_reorg_data = reorg_data_of r\<rparr>"
proof -
  let ?p = "hn_hash (tr_common r)"
  have up: "chain_up (header_metadata api c) ?p (tr_enacted r)"
    and down: "chain_up (header_metadata api c) ?p (rev (tr_retracted r))"
    and to: "tip ?p (tr_enacted r) = to" and best: "tip ?p (rev (tr_retracted r)) = hn_hash (fo_best st)"
    using r by (auto simp: route_ok_def)
  obtain exts where exts: "try_collect (map (\<lambda>hn. get_block_ext c (hn_hash hn)) (tr_enacted r)) = Inr exts"
    and hashes: "map be_hash exts = map hn_hash (tr_enacted r)"
    and nums: "map be_number exts = map hn_number (tr_enacted r)"
    and gen: "list_all (genuine_ext api U) exts"
    using chain_up_exts [OF api c up] by blast
  let ?bx = "\<lparr>bx_blocks = exts, bx_maybe_reorg_data = reorg_data_of r\<rparr>"
  have base: "base_hash (hn_hash (fo_best st)) ?bx = ?p"
    using best by (cases "tr_retracted r") (auto simp: base_hash_def reorg_data_of_def)
  have lasts: "hn_hash (last (tr_enacted r)) = to" using to ne by (simp add: tip_last last_map)
  have exts_ne: "exts \<noteq> []" using hashes ne by auto
  have "be_hash (last exts) = to" using hashes lasts ne exts_ne by (metis last_map)
  moreover have num: "be_number (last exts) = hn_number (last (tr_enacted r))" using nums ne exts_ne by (metis last_map)
  moreover have "hlinked api U ?p (map be_hash exts)"
    using chain_up_hlinked [OF api c up] hashes by simp
  moreover have "hlinked api U ?p (retracted_hashes ?bx)"
    using chain_up_hlinked [OF api c down] by (simp add: reorg_data_hashes rev_map)
  moreover have "last (?p # retracted_hashes ?bx) = hn_hash (fo_best st)"
    using best by (simp add: reorg_data_hashes tip_last rev_map)
  moreover have "reorg_data_ok api U ?bx"
    using chain_up_genuine [OF api c down] ext_ids [OF hashes nums]
    by (auto simp: reorg_data_ok_def reorg_data_of_def map_butlast)
  ultimately have "broadcast_ok api U (hn_hash (fo_best st)) to ?bx"
    using exts_ne gen by (simp add: broadcast_ok_def base)
  with exts hashes nums lasts num ne show ?thesis by (auto simp: enact_route_def)
qed

definition import_post :: "chain_api \<Rightarrow> header set \<Rightarrow> follower \<Rightarrow> sub_block \<Rightarrow>
    (follower, blocks_ext, error failure) step_result \<Rightarrow> bool" where
  "import_post api U st b res \<longleftrightarrow>
     follower_ok api U (loop_state res) \<and> pred_option node_failure (loop_end res) \<and>
     (loop_out res = [] \<and> fo_best (loop_state res) = fo_best st \<or>
      loop_end res = None \<and> hn_hash (fo_best (loop_state res)) = sb_hash b \<and>
      (\<exists>bx. loop_out res = [bx] \<and> be_number (last (bx_blocks bx)) = hn_number (fo_best (loop_state res)) \<and>
         broadcast_ok api U (hn_hash (fo_best st)) (sb_hash b) bx))"

lemma import_block_post:
  assumes st: "follower_ok api U st" and item: "item_ok api U (nd, SubBlock b)"
  shows "import_post api U st b (import_block api nd st b)"
proof -
  have api: "chain_api_ok api" and U: "headers_ok api U" and c: "cache_within api U (fo_cache st)"
    using st by (auto simp: follower_ok_def)
  from item obtain h where h: "h \<in> U" "rebuild_header api (sb_header b) = Inr h" "header_hash api h = sb_hash b"
    and nd: "node_ok api U nd" by (auto simp: item_ok_def is_header_of_def)
  let ?c = "insert_header api (fo_cache st) h"
  have add: "add_header api (fo_cache st) (sb_header b) = Inr (sb_hash b, ?c)"
    using h by (simp add: add_header_def)
  have c': "cache_within api U ?c" using c U h(1) by (rule cache_within_insert)
  obtain x where x: "recursive_tree_route api nd ?c (hn_hash (fo_best st)) (sb_hash b) = Some x"
    and out: "route_outcome api U ?c (hn_hash (fo_best st)) (sb_hash b) x"
    using recursive_tree_route_returns [OF api U nd c'] by blast
  show ?thesis
  proof (cases "is_canonical_block nd (sb_number b) (sb_hash b)")
    case (Inl f)
    then show ?thesis using add c' api U is_canonical_block_Inl [OF Inl]
      by (simp add: import_block_def import_post_def follower_ok_def)
  next
    case (Inr canonical)
    show ?thesis
    proof (cases "canonical \<and> (\<exists>r. snd x = Inr r \<and> tr_enacted r \<noteq> [])")
      case True
      then obtain r where r: "snd x = Inr r" "tr_enacted r \<noteq> []" by blast
      from out r(1) have within: "cache_within api U (fst x)"
        and ok: "route_ok (header_metadata api (fst x)) (hn_hash (fo_best st)) (sb_hash b) r"
        by (simp_all add: route_outcome_def)
      from enact_route_broadcast [OF api within ok r(2), of "sb_number b"] within
      have "import_post api U st b (enact_route st (fst x) (sb_number b) r)"
        by (auto simp: import_post_def follower_ok_def api U cache_within_remove)
      moreover have "import_block api nd st b = enact_route st (fst x) (sb_number b) r"
        using add Inr True x r(1) by (auto simp: import_block_def split: prod.splits)
      ultimately show ?thesis by simp
    next
      case False
      then show ?thesis using add Inr x out c' api U
        by (auto simp: import_block_def import_post_def follower_ok_def route_outcome_def enact_route_def
            split: prod.splits sum.splits bool.splits)
    qed
  qed
qed

text \<open>The contract of the loop: the environment's promises in, node failures and good broadcasts out.\<close>

definition some_broadcast :: "chain_api \<Rightarrow> header set \<Rightarrow> blocks_ext \<Rightarrow> bool" where
  "some_broadcast api U bx \<longleftrightarrow> (\<exists>best best'. broadcast_ok api U best best' bx)"

lemma listen_step_post:
  assumes "follower_ok api U st" and "item_ok api U i" and "listen_step api st i = (st', os, r)"
  shows "follower_ok api U st' \<and> pred_option node_failure r \<and>
    (os = [] \<and> fo_best st' = fo_best st \<or>
     r = None \<and> (\<exists>bx. os = [bx] \<and> broadcast_ok api U (hn_hash (fo_best st)) (hn_hash (fo_best st')) bx))"
proof (cases i)
  case (Pair nd item)
  show ?thesis
  proof (cases item)
    case (SubBlock b)
    with Pair assms import_block_post [of api U st nd b] show ?thesis
      by (auto simp: import_post_def)
  qed (use Pair assms in \<open>auto simp: node_failure_def\<close>)
qed

interpretation follow: loop_contract "listen_step api" "follower_ok api U" "item_ok api U"
  "some_broadcast api U" node_failure for api U
proof (unfold_locales, goal_cases)
  case (2 s i s' os r x)
  then show ?case using listen_step_post [OF 2(1-3)] unfolding some_broadcast_def by auto blast
qed (use listen_step_post in fastforce)+

section \<open>Following the best chain\<close>

lemma last_last_append: "xs \<noteq> [] \<Longrightarrow> last (last xs # ys) = last (xs @ ys)"
  by simp

lemma hlinked_append:
  "hlinked api U p (xs @ ys) \<longleftrightarrow> hlinked api U p xs \<and> hlinked api U (last (p # xs)) ys"
  by (induction xs arbitrary: p) auto

lemma hlinked_unique:
  assumes "inj_on (header_hash api) U"
  shows "hlinked api U p xs \<Longrightarrow> hlinked api U q ys \<Longrightarrow> length xs = length ys \<Longrightarrow>
    last (p # xs) = last (q # ys) \<Longrightarrow> xs = ys \<and> p = q"
proof (induction xs arbitrary: ys rule: rev_induct)
  case (snoc x xs)
  then obtain y ys' where ys: "ys = ys' @ [y]" by (cases ys rule: rev_cases) auto
  with snoc.prems have xy: "x = y" and sub: "hlinked api U p xs" "hlinked api U q ys'" "length xs = length ys'"
    by (simp_all add: hlinked_append)
  obtain h where h: "h \<in> U" "header_hash api h = x" "h_parent_hash h = last (p # xs)"
    using snoc.prems(1) by (auto simp: hlinked_append)
  obtain g where g: "g \<in> U" "header_hash api g = y" "h_parent_hash g = last (q # ys')"
    using snoc.prems(2) ys by (auto simp: hlinked_append)
  from h g xy assms have "last (p # xs) = last (q # ys')" by (metis inj_onD)
  from snoc.IH [OF sub this] xy ys show ?case by simp
qed auto

lemma replay_view:
  assumes "headers_ok api U" and view: "chain_view api U view best"
    and bx: "broadcast_ok api U best best' bx" and depth: "length (retracted_hashes bx) < length view"
  shows "chain_view api U (replay view bx) best'"
proof -
  let ?k = "length view - length (retracted_hashes bx)"
  let ?pre = "take ?k view" and ?suf = "drop ?k view"
  have k: "0 < ?k" using depth by simp
  then have pre: "?pre \<noteq> []" and hd: "hd ?pre = hd view" using view by (auto simp: chain_view_def)
  then have "view = hd view # tl ?pre @ ?suf"
    using view by (metis append_take_drop_id chain_view_def append_Cons hd_Cons_tl)
  then have tl: "tl view = tl ?pre @ ?suf" by (metis list.sel(3))
  with view have link: "hlinked api U (hd view) (tl ?pre)" "hlinked api U (last (hd view # tl ?pre)) ?suf"
    by (auto simp: chain_view_def hlinked_append)
  have lastpre: "last (hd view # tl ?pre) = last ?pre" using pre hd by (metis hd_Cons_tl)
  have "last (last ?pre # ?suf) = best"
    using last_last_append [OF pre, of ?suf] view by (simp only: append_take_drop_id chain_view_def)
  moreover have "length ?suf = length (retracted_hashes bx)" using depth by simp
  moreover have "hlinked api U (last ?pre) ?suf" using link(2) by (simp only: lastpre)
  moreover have "hlinked api U (base_hash best bx) (retracted_hashes bx)"
    "last (base_hash best bx # retracted_hashes bx) = best" "inj_on (header_hash api) U"
    using bx assms(1) by (simp_all only: broadcast_ok_def headers_ok_def)
  ultimately have "last ?pre = base_hash best bx" using hlinked_unique by metis
  then have "hlinked api U (hd view) (tl ?pre @ map be_hash (bx_blocks bx))"
    using bx link(1) lastpre by (simp only: hlinked_append broadcast_ok_def)
  moreover have "hd (replay view bx) = hd view" "tl (replay view bx) = tl ?pre @ map be_hash (bx_blocks bx)"
    using pre hd by (simp_all add: replay_def)
  moreover have "replay view bx \<noteq> []" "last (replay view bx) = best'"
    using bx by (auto simp: replay_def broadcast_ok_def last_map)
  ultimately show ?thesis by (simp only: chain_view_def simp_thms)
qed

lemma length_replay:
  "length (replay view bx) = length view - length (retracted_hashes bx) + length (bx_blocks bx)"
  by (simp add: replay_def)

lemma replay_run:
  assumes "follower_ok api U st" and "list_all (item_ok api U) sub"
    and "run_loop (listen_step api) st sub = (st', os, r)"
    and "chain_view api U view (hn_hash (fo_best st))" and "covered (length view) os"
  shows "chain_view api U (foldl replay view os) (hn_hash (fo_best st'))"
  using assms
proof (induction sub arbitrary: st view os)
  case (Cons i sub)
  obtain t o1 q where b: "listen_step api st i = (t, o1, q)" by (metis prod_cases3)
  have U: "headers_ok api U" using Cons.prems(1) by (simp add: follower_ok_def)
  note post = listen_step_post [OF Cons.prems(1) _ b]
  from Cons.prems(2) have i: "item_ok api U i" and sub: "list_all (item_ok api U) sub" by simp_all
  show ?case
  proof (cases q)
    case (Some f)
    with Cons.prems b post i show ?thesis by auto
  next
    case None
    obtain o2 where run: "run_loop (listen_step api) t sub = (st', o2, r)" and os: "os = o1 @ o2"
      using b None Cons.prems(3) by (auto split: prod.splits)
    from post i have t: "follower_ok api U t" by simp
    consider "o1 = []" "fo_best t = fo_best st"
      | bx where "o1 = [bx]" "broadcast_ok api U (hn_hash (fo_best st)) (hn_hash (fo_best t)) bx"
      using post i by auto
    then show ?thesis
    proof cases
      case 1
      with Cons.IH [OF t sub run] Cons.prems(4,5) os show ?thesis by simp
    next
      case 2
      with Cons.prems(5) os have "covered (length view) (bx # o2)" by (simp del: covered.simps)
      then have "length (retracted_hashes bx) < length view"
        and "covered (length (replay view bx)) o2" by (simp_all only: length_replay covered.simps)
      with Cons.IH [OF t sub run] replay_view [OF U Cons.prems(4) 2(2)] os 2(1) show ?thesis by simp
    qed
  qed
qed simp

lemma route_to_child:
  assumes wf: "wf_lookup get" and r: "route_ok get from to r" and mf: "get from = Inr mf"
    and mt: "get to = Inr mt" "m_parent mt = from"
  shows "tr_retracted r = [] \<and> (\<exists>y. tr_enacted r = [y] \<and> hn_hash y = to)"
proof -
  let ?c = "hn_hash (tr_common r)"
  obtain mc where mc: "get ?c = Inr mc" using r by (auto simp: route_ok_def)
  have up: "chain_up get ?c (tr_enacted r)" "tip ?c (tr_enacted r) = to"
    and down: "chain_up get ?c (rev (tr_retracted r))" "tip ?c (rev (tr_retracted r)) = from"
    using r by (auto simp: route_ok_def)
  from chain_up_number [OF wf mc up(1)] chain_up_number [OF wf mc down(1)] up(2) down(2) mf mt
    wf_lookup_number [OF wf mt(1)]
  have len: "length (tr_enacted r) = Suc (length (tr_retracted r))" by simp
  then obtain xs y where enacted: "tr_enacted r = xs @ [y]" by (cases "tr_enacted r" rule: rev_cases) auto
  with up have xs: "chain_up get ?c xs" and y: "hn_hash y = to" "tip ?c xs = from"
    using mt by (auto simp: chain_up_append split: sum.splits)
  from chain_up_unique [OF xs down(1)] len enacted y(2) down(2)
  have eq: "map hn_hash xs = map hn_hash (rev (tr_retracted r))" by simp
  have "tr_retracted r = []"
  proof (rule ccontr)
    assume ne: "tr_retracted r \<noteq> []"
    with eq have "hn_hash (hd (tr_enacted r)) = hn_hash (last (tr_retracted r))"
      using enacted by (metis hd_append2 hd_rev list.map_disc_iff list.map_sel(1) rev_is_Nil_conv)
    with r ne enacted show False by (auto simp: route_ok_def)
  qed
  with eq enacted y show ?thesis by simp
qed

section \<open>Loading and reconnecting\<close>

lemma first_canonical_Inr:
  assumes "first_canonical sub = Some (Inr (hash, rest))"
  shows "\<exists>pre nd b. sub = pre @ (nd, SubBlock b) # rest \<and> sb_hash b = hash \<and>
    chain_get_block_hash nd (sb_number b) = Inr (Some hash)"
  using assms
proof (induction sub rule: first_canonical.induct)
  case (4 nd b sub)
  show ?case
  proof (cases "is_canonical_block nd (sb_number b) (sb_hash b)")
    case (Inr canonical)
    show ?thesis
    proof (cases canonical)
      case True
      with Inr 4 have "(nd, SubBlock b) # sub = [] @ (nd, SubBlock b) # rest" "sb_hash b = hash"
        by simp_all
      moreover have "chain_get_block_hash nd (sb_number b) = Inr (Some (sb_hash b))"
        using Inr True by (auto simp: is_canonical_block_Inr)
      ultimately show ?thesis by blast
    next
      case False
      from False Inr "4.prems" have "first_canonical sub = Some (Inr (hash, rest))" by simp
      with "4.IH" [OF Inr] False obtain pre nd' b' where "sub = pre @ (nd', SubBlock b') # rest"
        "sb_hash b' = hash" "chain_get_block_hash nd' (sb_number b') = Inr (Some hash)" by blast
      then have "(nd, SubBlock b) # sub = ((nd, SubBlock b) # pre) @ (nd', SubBlock b') # rest" by simp
      with \<open>sb_hash b' = hash\<close> \<open>chain_get_block_hash nd' (sb_number b') = Inr (Some hash)\<close>
      show ?thesis by blast
    qed
  qed (use 4 in simp)
qed simp_all

text \<open>Adding a list of headers is a fold of the cache's insertion over the rebuilt headers.\<close>

lemma add_headers_fold:
  "add_headers api c shs = Inr c' \<Longrightarrow>
   \<exists>hs. map (rebuild_header api) shs = map Inr hs \<and> c' = fold (\<lambda>h c. insert_header api c h) hs c"
proof (induction shs arbitrary: c)
  case (Cons sh shs)
  then obtain hash c1 where add: "add_header api c sh = Inr (hash, c1)" and rest: "add_headers api c1 shs = Inr c'"
    by (auto simp: bind_res_eq_Inr)
  from Cons.IH [OF rest] obtain hs where "map (rebuild_header api) shs = map Inr hs"
    and "c' = fold (\<lambda>h c. insert_header api c h) hs c1" by blast
  moreover obtain h where "rebuild_header api sh = Inr h" "c1 = insert_header api c h"
    using add by (auto simp: add_header_Inr)
  ultimately show ?case by (intro exI [of _ "h # hs"]) simp
qed simp

lemma canonical_header_Inr:
  "canonical_header nd n = Inr sh \<longleftrightarrow>
   (\<exists>hash. chain_get_block_hash nd n = Inr (Some hash) \<and> chain_get_header nd hash = Inr (Some sh))"
  by (auto simp: canonical_header_def fetch_header_def res_simps split: sum.splits option.splits)

lemma load_range_Inr:
  assumes "load_range api nd c latest = Inr st"
  obtains sh shs where "chain_get_header nd latest = Inr (Some sh)"
    and "map (canonical_header nd) (range_incl (saturating_sub (sh_number sh) CACHE_HEADER_DEPTH) (sh_number sh)) = map Inr shs"
    and "add_headers api c shs = Inr (fo_cache st)"
    and "fo_best st = \<lparr>hn_number = sh_number sh, hn_hash = latest\<rparr>"
  using assms
  by (auto simp: load_range_def Let_def bind_res_eq_Inr fetch_header_Inr try_collect_Inr_iff)

lemma load_range_headers:
  assumes U: "headers_ok api U" and nd: "node_ok api U nd" and c: "cache_within api U c"
    and load: "load_range api nd c latest = Inr st"
  shows "cache_within api U (fo_cache st) \<and> hn_hash (fo_best st) = latest \<and>
    (\<forall>n \<in> {saturating_sub (hn_number (fo_best st)) CACHE_HEADER_DEPTH .. hn_number (fo_best st)}.
       \<exists>hash. chain_get_block_hash nd n = Inr (Some hash) \<and> hash \<in> cached_hashes (fo_cache st))"
proof -
  obtain sh shs where "chain_get_header nd latest = Inr (Some sh)"
    and shs: "map (canonical_header nd) (range_incl (saturating_sub (sh_number sh) CACHE_HEADER_DEPTH) (sh_number sh)) = map Inr shs"
    and add: "add_headers api c shs = Inr (fo_cache st)"
    and sh: "fo_best st = \<lparr>hn_number = sh_number sh, hn_hash = latest\<rparr>"
    using load by (rule load_range_Inr)
  obtain hs where hs: "map (rebuild_header api) shs = map Inr hs"
    and fold: "fo_cache st = fold (\<lambda>h c. insert_header api c h) hs c"
    using add_headers_fold [OF add] by blast
  let ?ns = "range_incl (saturating_sub (sh_number sh) CACHE_HEADER_DEPTH) (sh_number sh)"
  have len: "length ?ns = length shs" "length shs = length hs"
    using shs hs by (metis length_map)+
  have nth: "\<exists>hash. chain_get_block_hash nd (?ns ! i) = Inr (Some hash) \<and> hs ! i \<in> U \<and> header_hash api (hs ! i) = hash"
    if i: "i < length hs" for i
  proof -
    have "canonical_header nd (?ns ! i) = Inr (shs ! i)"
      using arg_cong [OF shs, of "\<lambda>xs. xs ! i"] i len by simp
    moreover have "rebuild_header api (shs ! i) = Inr (hs ! i)"
      using arg_cong [OF hs, of "\<lambda>xs. xs ! i"] i len by simp
    ultimately show ?thesis
      using nd by (fastforce simp: canonical_header_Inr node_ok_def is_header_of_def)
  qed
  have hsU: "set hs \<subseteq> U" using nth by (auto simp: in_set_conv_nth)
  have inj: "inj_on (header_hash api) U" using U by (simp add: headers_ok_def)
  have "cache_within api U (fo_cache st)"
    using hc.within_fold_add [OF _ inj hsU] c fold by (simp add: cache_within_iff)
  moreover have "\<exists>hash. chain_get_block_hash nd n = Inr (Some hash) \<and> hash \<in> cached_hashes (fo_cache st)"
    if n: "n \<in> set ?ns" for n
  proof -
    obtain i where i: "i < length hs" "n = ?ns ! i" using n len by (metis in_set_conv_nth)
    then obtain hash where hash: "chain_get_block_hash nd n = Inr (Some hash)" "header_hash api (hs ! i) = hash"
      and "hs ! i \<in> U" using nth by blast
    with hc.look_fold_add [OF inj hsU, of "hs ! i" c] i fold have "hash \<in> cached_hashes (fo_cache st)"
      by (auto simp: cached_hashes_def)
    with hash show ?thesis by blast
  qed
  ultimately show ?thesis using sh by auto
qed

section \<open>A concrete chain\<close>

text \<open>
  A small instance on which every hypothesis above holds: the hash of a header is its state
  root, the route is the reference one, and seven blocks form two branches,
  \<open>0 - 1 - 2 - 3\<close> and \<open>0 - 1 - 12 - 13 - 14\<close>.
\<close>

definition ref_api :: chain_api where
  "ref_api = \<lparr>digest_encode = id, digest_decode = Some, header_hash = h_state_root,
     cached_metadata = (\<lambda>h. \<lparr>m_hash = h_state_root h, m_number = h_number h, m_parent = h_parent_hash h\<rparr>),
     tree_route_of = ref_tree_route\<rparr>"

definition ex_header :: "h256 \<Rightarrow> u32 \<Rightarrow> h256 \<Rightarrow> header" where
  "ex_header hash n parent = \<lparr>h_parent_hash = parent, h_number = n, h_state_root = hash,
     h_extrinsics_root = 0, h_digest = []\<rparr>"

definition ex_substrate :: "header \<Rightarrow> substrate_header" where
  "ex_substrate h = \<lparr>sh_parent_hash = h_parent_hash h, sh_number = h_number h,
     sh_state_root = h_state_root h, sh_extrinsics_root = h_extrinsics_root h, sh_digest = h_digest h\<rparr>"

definition ex_U :: "header set" where
  "ex_U = {ex_header 0 0 99, ex_header 1 1 0, ex_header 2 2 1, ex_header 3 3 2, ex_header 12 2 1, ex_header 13 3 12, ex_header 14 4 13}"

definition ex_block :: "header \<Rightarrow> sub_block" where
  "ex_block h = \<lparr>sb_hash = h_state_root h, sb_number = h_number h, sb_header = ex_substrate h\<rparr>"

text \<open>The node: the best chain it reports, and every header it has.\<close>

definition ex_node :: "(u32 \<rightharpoonup> h256) \<Rightarrow> (h256 \<rightharpoonup> header) \<Rightarrow> node" where
  "ex_node best hs = \<lparr>chain_get_block_hash = (\<lambda>n. Inr (best n)),
     chain_get_header = (\<lambda>h. Inr (map_option ex_substrate (hs h)))\<rparr>"

definition ex_headers :: "h256 \<rightharpoonup> header" where
  "ex_headers = [0 \<mapsto> ex_header 0 0 99, 1 \<mapsto> ex_header 1 1 0, 2 \<mapsto> ex_header 2 2 1, 3 \<mapsto> ex_header 3 3 2,
     12 \<mapsto> ex_header 12 2 1, 13 \<mapsto> ex_header 13 3 12, 14 \<mapsto> ex_header 14 4 13]"

definition ex_node_a :: node where
  "ex_node_a = ex_node [0 \<mapsto> 0, 1 \<mapsto> 1, 2 \<mapsto> 2, 3 \<mapsto> 3] ex_headers"

definition ex_node_b :: node where
  "ex_node_b = ex_node [0 \<mapsto> 0, 1 \<mapsto> 1, 2 \<mapsto> 12, 3 \<mapsto> 13, 4 \<mapsto> 14] ex_headers"

definition ex_start :: follower where
  "ex_start = \<lparr>fo_cache = insert_header ref_api (insert_header ref_api default_cache (ex_header 1 1 0)) (ex_header 2 2 1),
     fo_best = \<lparr>hn_number = 2, hn_hash = 2\<rparr>\<rparr>"

text \<open>Block 3 extends the best chain, 13 is imported as a fork block, 14 makes its branch the best.\<close>

definition ex_sub :: subscription where
  "ex_sub = [(ex_node_a, SubBlock (ex_block (ex_header 3 3 2))),
             (ex_node_a, SubBlock (ex_block (ex_header 13 3 12))),
             (ex_node_b, SubBlock (ex_block (ex_header 14 4 13)))]"

lemma ref_api_ok: "chain_api_ok ref_api"
  by (simp add: chain_api_ok_def ref_api_def ref_tree_route_law)

lemma rebuild_ex: "rebuild_header ref_api (ex_substrate h) = Inr h"
  by (simp add: rebuild_header_def ref_api_def ex_substrate_def res_simps)

lemma ex_headers_ok: "headers_ok ref_api ex_U"
  by (simp add: headers_ok_def ref_api_def ex_U_def ex_header_def inj_on_def)

lemma ex_node_ok: "ran hs \<subseteq> ex_U \<Longrightarrow> (\<And>x h. hs x = Some h \<Longrightarrow> h_state_root h = x) \<Longrightarrow> node_ok ref_api ex_U (ex_node best hs)"
  by (auto simp: node_ok_def ex_node_def is_header_of_def rebuild_ex ran_def) (auto simp: ref_api_def)

lemma ex_headers_state_root: "ex_headers x = Some h \<Longrightarrow> h_state_root h = x"
  by (auto simp: ex_headers_def ex_header_def split: if_splits)

lemma ex_headers_ran: "ran ex_headers \<subseteq> ex_U"
  by (auto simp: ex_headers_def ran_def ex_U_def split: if_splits)

lemma ex_nodes_ok: "node_ok ref_api ex_U ex_node_a" "node_ok ref_api ex_U ex_node_b"
  unfolding ex_node_a_def ex_node_b_def
  by (rule ex_node_ok [OF ex_headers_ran ex_headers_state_root], assumption)+

lemma ex_item_ok: "node_ok ref_api ex_U nd \<Longrightarrow> h \<in> ex_U \<Longrightarrow> item_ok ref_api ex_U (nd, SubBlock (ex_block h))"
  by (auto simp: item_ok_def ex_block_def is_header_of_def rebuild_ex) (auto simp: ref_api_def ex_substrate_def)

lemma ex_sub_ok: "list_all (item_ok ref_api ex_U) ex_sub"
proof -
  have "ex_header 3 3 2 \<in> ex_U" "ex_header 13 3 12 \<in> ex_U" "ex_header 14 4 13 \<in> ex_U"
    by (simp_all add: ex_U_def)
  then show ?thesis by (simp add: ex_sub_def ex_item_ok ex_nodes_ok)
qed

lemma ex_start_ok: "follower_ok ref_api ex_U ex_start"
proof -
  have "cache_within ref_api ex_U default_cache"
    by (simp add: cache_within_def ran_def) (simp add: default_cache_def)
  moreover have "ex_header 1 1 0 \<in> ex_U" "ex_header 2 2 1 \<in> ex_U" by (simp_all add: ex_U_def)
  ultimately show ?thesis
    by (simp add: follower_ok_def ref_api_ok ex_headers_ok ex_start_def cache_within_insert)
qed

lemmas ex_defs = ex_sub_def ex_start_def ex_node_a_def ex_node_b_def ex_node_def ex_headers_def
  ex_block_def ex_substrate_def ex_header_def ref_api_def

lemma ex_run:
  "\<exists>st'. listen_for_blocks ref_api ex_start ex_sub =
    (st', [\<lparr>bx_blocks = [\<lparr>be_number = 3, be_hash = 3, be_parent_hash = 2, be_state_root = 3, be_extrinsics_root = 0\<rparr>],
            bx_maybe_reorg_data = None\<rparr>,
           \<lparr>bx_blocks = [\<lparr>be_number = 2, be_hash = 12, be_parent_hash = 1, be_state_root = 12, be_extrinsics_root = 0\<rparr>,
                        \<lparr>be_number = 3, be_hash = 13, be_parent_hash = 12, be_state_root = 13, be_extrinsics_root = 0\<rparr>,
                        \<lparr>be_number = 4, be_hash = 14, be_parent_hash = 13, be_state_root = 14, be_extrinsics_root = 0\<rparr>],
            bx_maybe_reorg_data = Some
              \<lparr>rd_enacted = [\<lparr>hn_number = 2, hn_hash = 12\<rparr>, \<lparr>hn_number = 3, hn_hash = 13\<rparr>],
               rd_retracted = [\<lparr>hn_number = 2, hn_hash = 2\<rparr>, \<lparr>hn_number = 3, hn_hash = 3\<rparr>],
               rd_common_block = \<lparr>hn_number = 1, hn_hash = 1\<rparr>\<rparr>\<rparr>], None) \<and>
    hn_hash (fo_best st') = 14"
  by (simp add: listen_for_blocks_def ex_defs import_block_def add_header_def rebuild_header_def res_simps
      is_canonical_block_def recursive_tree_route.simps ref_tree_route_def header_metadata_def
      insert_header_def Let_def default_cache_def meta_hn_def fetch_header_def enact_route_def
      get_block_ext_def get_header_def reorg_data_of_def remove_header_until.simps saturating_sub_def
      CACHE_HEADER_DEPTH_def walk_numeral)

section \<open>Properties\<close>

text \<open>
  C1: A consumer that starts from any stretch of the best chain and applies the broadcasts
  (drop as many blocks as were retracted, append the broadcast ones) always holds a chain of
  existing headers, each the child of the one before, that ends in the follower's current best
  block, as long as no reorg goes back further than the consumer's copy.  No block of the best
  chain is skipped and none is broadcast out of order.
\<close>

theorem replay_tracks_best_chain:
  assumes "follower_ok api U st" and "list_all (item_ok api U) sub"
    and "listen_for_blocks api st sub = (st', os, r)"
    and "chain_view api U view (hn_hash (fo_best st))" and "covered (length view) os"
  shows "chain_view api U (foldl replay view os) (hn_hash (fo_best st'))"
  using replay_run [OF assms(1,2) _ assms(4,5)] assms(3) by (simp add: listen_for_blocks_def)

theorem replay_tracks_best_chain_witness:
  "chain_view ref_api ex_U (foldl replay [1, 2] (loop_out (listen_for_blocks ref_api ex_start ex_sub))) 14"
proof -
  from ex_run obtain st' where run: "listen_for_blocks ref_api ex_start ex_sub =
      (st', loop_out (listen_for_blocks ref_api ex_start ex_sub), None)" and "hn_hash (fo_best st') = 14"
    by auto
  moreover have "chain_view ref_api ex_U [1, 2] (hn_hash (fo_best ex_start))"
    by (simp add: chain_view_def ex_U_def ex_defs)
  moreover have "covered (length [1, 2 :: h256]) (loop_out (listen_for_blocks ref_api ex_start ex_sub))"
    using ex_run by (auto simp: retracted_hashes_def)
  ultimately show ?thesis
    using replay_tracks_best_chain [OF ex_start_ok ex_sub_ok run] by simp
qed

text \<open>
  C16: Importing a block either broadcasts nothing and leaves the best block alone, or makes
  the imported block the best one and broadcasts a non-empty list of existing blocks that
  ends in it.  The list starts at a child of the previous best block or, in a reorg, of the
  common block; the retracted blocks lead from the common block to the previous best block.
\<close>

theorem import_block_broadcast:
  assumes "follower_ok api U st" and "item_ok api U (nd, SubBlock b)"
    and "import_block api nd st b = (st', os, r)" and "os \<noteq> []"
  shows "\<exists>bx. os = [bx] \<and> r = None \<and> hn_hash (fo_best st') = sb_hash b \<and>
    broadcast_ok api U (hn_hash (fo_best st)) (sb_hash b) bx"
  using import_block_post [OF assms(1,2)] assms(3,4) by (auto simp: import_post_def)

lemma ex_import:
  "\<exists>st' bx. import_block ref_api ex_node_a ex_start (ex_block (ex_header 3 3 2)) = (st', [bx], None)"
  by (simp add: ex_defs import_block_def add_header_def rebuild_header_def res_simps
      is_canonical_block_def recursive_tree_route.simps ref_tree_route_def header_metadata_def
      insert_header_def Let_def default_cache_def meta_hn_def enact_route_def
      get_block_ext_def get_header_def reorg_data_of_def walk_numeral)

theorem import_block_broadcast_witness:
  "\<exists>st' bx. import_block ref_api ex_node_a ex_start (ex_block (ex_header 3 3 2)) = (st', [bx], None) \<and>
     hn_hash (fo_best st') = 3 \<and> broadcast_ok ref_api ex_U 2 3 bx"
proof -
  obtain st' bx where run: "import_block ref_api ex_node_a ex_start (ex_block (ex_header 3 3 2)) = (st', [bx], None)"
    using ex_import by blast
  have "item_ok ref_api ex_U (ex_node_a, SubBlock (ex_block (ex_header 3 3 2)))"
    using ex_sub_ok by (simp add: ex_sub_def)
  from import_block_broadcast [OF ex_start_ok this run] run show ?thesis
    by (auto simp: ex_start_def ex_block_def ex_header_def)
qed

text \<open>
  C2: While the node answers with the headers it was asked for and the subscription delivers
  blocks under their own hash, following a subscription never panics (neither the digest
  \<open>expect\<close> nor the hash \<open>assert_eq!\<close> fires), always returns, never misses a header of its own
  cache, and keeps the cache consistent: the only ways out of the loop are RPC errors,
  subscription errors and blocks the node does not have.
\<close>

theorem listen_fails_only_with_node:
  assumes "follower_ok api U st" and "list_all (item_ok api U) sub"
    and "listen_for_blocks api st sub = (st', os, r)"
  shows "follower_ok api U st' \<and> pred_option node_failure r"
  using follow.run_contract [OF assms(1,2)] assms(3) by (simp add: listen_for_blocks_def)

theorem listen_fails_only_with_node_witness:
  "follower_ok ref_api ex_U (loop_state (listen_for_blocks ref_api ex_start (ex_sub @ [(ex_node_b, SubClosed)]))) \<and>
   pred_option node_failure (loop_end (listen_for_blocks ref_api ex_start (ex_sub @ [(ex_node_b, SubClosed)])))"
proof -
  obtain st' os r where run:
    "listen_for_blocks ref_api ex_start (ex_sub @ [(ex_node_b, SubClosed)]) = (st', os, r)"
    by (metis prod_cases3)
  have "list_all (item_ok ref_api ex_U) (ex_sub @ [(ex_node_b, SubClosed)])"
    using ex_sub_ok ex_nodes_ok by (simp add: item_ok_def)
  from listen_fails_only_with_node [OF ex_start_ok this run] run show ?thesis by simp
qed

text \<open>
  C15: The retry recursion returns whatever headers are missing, when the node is honest: each
  round adds the header that was missing, so the same hash is never asked for twice.  The
  result is a route over the final cache, which extends the initial one, or a failure of the
  node.
\<close>

theorem recursive_tree_route_terminates:
  assumes "chain_api_ok api" and "headers_ok api U" and "node_ok api U nd" and "cache_within api U c"
  shows "\<exists>c' res. recursive_tree_route api nd c from to = Some (c', res) \<and>
    cache_within api U c' \<and> block_header_data c \<subseteq>\<^sub>m block_header_data c' \<and>
    (\<forall>r. res = Inr r \<longrightarrow> route_ok (header_metadata api c') from to r) \<and>
    (\<forall>f. res = Inl f \<longrightarrow> node_failure f)"
proof -
  obtain c' res where "recursive_tree_route api nd c from to = Some (c', res)"
    and "route_outcome api U c from to (c', res)"
    using recursive_tree_route_returns [OF assms, of "from" to] by (metis surj_pair)
  then show ?thesis by (cases res) (auto simp: route_outcome_def)
qed

theorem recursive_tree_route_terminates_witness:
  "\<exists>c' res. recursive_tree_route ref_api ex_node_b (fo_cache ex_start) 2 14 = Some (c', res) \<and>
     cache_within ref_api ex_U c' \<and> block_header_data (fo_cache ex_start) \<subseteq>\<^sub>m block_header_data c'"
proof -
  have "cache_within ref_api ex_U (fo_cache ex_start)" using ex_start_ok by (simp add: follower_ok_def)
  from recursive_tree_route_terminates [OF ref_api_ok ex_headers_ok ex_nodes_ok(2) this, of 2 14]
  show ?thesis by blast
qed

text \<open>
  A block that the node does not report as canonical at its number (a fork block) is
  cached under its hash and changes nothing else: no broadcast, the same best block, and the
  task goes on.
\<close>

theorem fork_block_is_silent:
  assumes "rebuild_header api (sb_header b) = Inr h" and "header_hash api h = sb_hash b"
    and "chain_get_block_hash nd (sb_number b) = Inr (Some other)" and "other \<noteq> sb_hash b"
  shows "\<exists>c. import_block api nd st b = (st\<lparr>fo_cache := c\<rparr>, [], None) \<and>
    get_header c (sb_hash b) = Inr h \<and>
    (\<forall>hash g. hash \<noteq> sb_hash b \<longrightarrow> get_header (fo_cache st) hash = Inr g \<longrightarrow> get_header c hash = Inr g)"
  using assms
  by (auto simp: import_block_def add_header_def is_canonical_block_def res_simps)

theorem fork_block_is_silent_witness:
  "\<exists>c. import_block ref_api ex_node_a ex_start (ex_block (ex_header 13 3 12)) = (ex_start\<lparr>fo_cache := c\<rparr>, [], None) \<and>
     get_header c 13 = Inr (ex_header 13 3 12)"
proof -
  have "chain_get_block_hash ex_node_a (sb_number (ex_block (ex_header 13 3 12))) = Inr (Some 3)"
    by (simp add: ex_defs)
  from fork_block_is_silent [OF _ _ this, of ref_api "ex_header 13 3 12" ex_start] show ?thesis
    by (auto simp: ex_block_def rebuild_ex) (auto simp: ref_api_def ex_header_def)
qed

text \<open>
  C36: The ordinary case: when the node reports the imported block as canonical and its parent
  is the current best block, exactly that block is broadcast, without reorg data, and it
  becomes the best block.
\<close>

theorem child_of_best_is_broadcast:
  assumes st: "follower_ok api U st" and item: "item_ok api U (nd, SubBlock b)"
    and canonical: "chain_get_block_hash nd (sb_number b) = Inr (Some (sb_hash b))"
    and best: "hn_hash (fo_best st) \<in> cached_hashes (fo_cache st)"
    and child: "sh_parent_hash (sb_header b) = hn_hash (fo_best st)"
  shows "\<exists>st' ext. import_block api nd st b = (st', [\<lparr>bx_blocks = [ext], bx_maybe_reorg_data = None\<rparr>], None) \<and>
    be_hash ext = sb_hash b \<and> be_parent_hash ext = hn_hash (fo_best st) \<and> hn_hash (fo_best st') = sb_hash b"
proof -
  have api: "chain_api_ok api" and U: "headers_ok api U" and c: "cache_within api U (fo_cache st)"
    using st by (auto simp: follower_ok_def)
  from item obtain h where h: "h \<in> U" "rebuild_header api (sb_header b) = Inr h" "header_hash api h = sb_hash b"
    by (auto simp: item_ok_def is_header_of_def)
  let ?c = "insert_header api (fo_cache st) h" and ?best = "hn_hash (fo_best st)"
  let ?get = "header_metadata api ?c"
  have c': "cache_within api U ?c" using c U h(1) by (rule cache_within_insert)
  note wf = cache_wf_lookup [OF api U c']
  have parent: "h_parent_hash h = ?best" using rebuild_header_Inr [OF h(2)] child by simp
  have to: "?get (sb_hash b) = Inr \<lparr>m_hash = sb_hash b, m_number = h_number h, m_parent = ?best\<rparr>"
    using h parent by (simp add: header_metadata_def cached_metadata_eq [OF api])
  obtain mf where mf: "?get ?best = Inr mf"
    using best by (cases "?best = sb_hash b") (auto simp: header_metadata_def cached_hashes_def h(3))
  have "ancestor ?get (sb_hash b) ?best"
    using to by (rule ancestor.up) (simp add: ancestor.self)
  then obtain r where r: "tree_route_of api ?get ?best (sb_hash b) = Inr r"
    using api wf mf ancestor.self unfolding chain_api_ok_def tree_route_law_def by metis
  then have ok: "route_ok ?get ?best (sb_hash b) r"
    using api wf by (simp add: chain_api_ok_def tree_route_law_def)
  from route_to_child [OF wf ok mf to] obtain y where y: "tr_retracted r = []" "tr_enacted r = [y]" "hn_hash y = sb_hash b"
    by auto
  have "import_block api nd st b = enact_route st ?c (sb_number b) r"
    using h canonical r
    by (simp add: import_block_def add_header_def is_canonical_block_def res_simps recursive_tree_route.simps)
  then show ?thesis
    using y h parent by (simp add: enact_route_def get_block_ext_def get_header_def res_simps reorg_data_of_def)
qed

theorem child_of_best_is_broadcast_witness:
  "\<exists>st' ext. import_block ref_api ex_node_a ex_start (ex_block (ex_header 3 3 2)) =
     (st', [\<lparr>bx_blocks = [ext], bx_maybe_reorg_data = None\<rparr>], None) \<and> be_hash ext = 3 \<and>
     be_parent_hash ext = 2 \<and> hn_hash (fo_best st') = 3"
proof -
  have item: "item_ok ref_api ex_U (ex_node_a, SubBlock (ex_block (ex_header 3 3 2)))"
    using ex_sub_ok by (simp add: ex_sub_def)
  have "hn_hash (fo_best ex_start) \<in> cached_hashes (fo_cache ex_start)"
    by (simp add: ex_start_def) (simp add: ref_api_def ex_header_def)
  from child_of_best_is_broadcast [OF ex_start_ok item _ this] show ?thesis by (simp add: ex_defs)
qed

lemma card_word_interval: "card {a..b} = Suc (unat b) - unat a"
  for a b :: "'a::len word"
proof -
  have "card {a..b} = card (set (range_incl a b))" by simp
  also have "\<dots> = length (range_incl a b)"
  proof (rule distinct_card)
    have "inj_on (of_nat :: nat \<Rightarrow> 'a word) {unat a ..< Suc (unat b)}"
    proof (rule inj_onI)
      fix x y
      assume "x \<in> {unat a ..< Suc (unat b)}" "y \<in> {unat a ..< Suc (unat b)}" "(of_nat x :: 'a word) = of_nat y"
      moreover from this have "x < 2 ^ LENGTH('a)" "y < 2 ^ LENGTH('a)"
        using unsigned_less [of b] by (auto simp: less_Suc_eq_le intro: order_le_less_trans)
      ultimately show "x = y" by (metis of_nat_inverse)
    qed
    then show "distinct (range_incl a b)" by (simp add: range_incl_def distinct_map del: upt_Suc)
  qed
  finally show ?thesis by (simp add: range_incl_def del: upt_Suc)
qed

lemma window_size: "card {saturating_sub n CACHE_HEADER_DEPTH .. n} = min 101 (Suc (unat n))"
  by (simp add: card_word_interval CACHE_HEADER_DEPTH_def)

text \<open>
  C32: Loading the cache waits for the first subscribed block that the node reports as
  canonical, makes it the best block, hands the rest of the subscription on, and leaves in the
  cache the canonical header of every block number from \<open>CACHE_HEADER_DEPTH\<close> below it on:
  101 block numbers on a chain that is that long, one more than the comment on the constant allows.
\<close>

theorem load_fills_window:
  assumes "chain_api_ok api" and U: "headers_ok api U" and nd: "node_ok api U nd" and c: "cache_within api U c"
    and load: "load_header_metadata_cache api nd c sub = Some (Inr (st, rest))"
  shows "follower_ok api U st \<and>
    (\<exists>pre nd' b. sub = pre @ (nd', SubBlock b) # rest \<and> sb_hash b = hn_hash (fo_best st) \<and>
       chain_get_block_hash nd' (sb_number b) = Inr (Some (sb_hash b))) \<and>
    (\<forall>n \<in> {saturating_sub (hn_number (fo_best st)) CACHE_HEADER_DEPTH .. hn_number (fo_best st)}.
       \<exists>hash. chain_get_block_hash nd n = Inr (Some hash) \<and> hash \<in> cached_hashes (fo_cache st)) \<and>
    card {saturating_sub (hn_number (fo_best st)) CACHE_HEADER_DEPTH .. hn_number (fo_best st)} =
      min 101 (Suc (unat (hn_number (fo_best st))))"
proof -
  from load obtain hash where first: "first_canonical sub = Some (Inr (hash, rest))"
    and range: "load_range api nd c hash = Inr st"
    by (auto simp: load_header_metadata_cache_def bind_res_eq_Inr split: prod.splits)
  from load_range_headers [OF U nd c range] first_canonical_Inr [OF first] assms(1) U
    window_size [of "hn_number (fo_best st)"]
  show ?thesis by (auto simp: follower_ok_def)
qed

lemma ex_load:
  "\<exists>st. load_header_metadata_cache ref_api ex_node_a default_cache (ex_sub @ rest) = Some (Inr (st, tl ex_sub @ rest)) \<and>
     fo_best st = \<lparr>hn_number = 3, hn_hash = 3\<rparr>"
  by (simp add: load_header_metadata_cache_def load_range_def ex_defs is_canonical_block_def res_simps
      fetch_header_def Let_def saturating_sub_def CACHE_HEADER_DEPTH_def range_incl_def upt_rec
      canonical_header_def add_header_def rebuild_header_def)

theorem load_fills_window_witness:
  "\<exists>st. load_header_metadata_cache ref_api ex_node_a default_cache ex_sub = Some (Inr (st, tl ex_sub)) \<and>
     follower_ok ref_api ex_U st"
proof -
  obtain st where st: "load_header_metadata_cache ref_api ex_node_a default_cache ex_sub = Some (Inr (st, tl ex_sub))"
    using ex_load [of "[]"] by auto
  have "cache_within ref_api ex_U default_cache"
    by (simp add: cache_within_def ran_def) (simp add: default_cache_def)
  from load_fills_window [OF ref_api_ok ex_headers_ok ex_nodes_ok(1) this st] st show ?thesis by blast
qed

text \<open>
  C35: A subscription that fails or closes ends the follower, and with it the program, even
  when further connections would succeed: the reconnecting branch of the outer loop is taken
  only for an RPC error inside \<open>listen_for_blocks\<close>, and a subscription failure is not one.
\<close>

theorem stream_failure_is_fatal:
  assumes "se_subscribe se = Inr sub"
    and "load_header_metadata_cache api (se_load_node se) c sub = Some (Inr (st, pre @ (nd, item) # rest))"
    and "listen_for_blocks api st pre = (st', os, None)"
    and "item = SubClosed \<and> e = MissingBlock \<or> item = SubError msg \<and> e = Subxt msg"
  shows "listen_for_all_blocks api c (se # ses) = (os, Some (Err e))"
proof -
  have "listen_for_blocks api st (pre @ (nd, item) # rest) = (st', os, Some (Err e))"
    using run_loop_append [of "listen_step api" st pre st' os "(nd, item) # rest"] assms(3,4)
    by (auto simp: listen_for_blocks_def)
  with assms(1,2,4) show ?thesis
    by (auto simp: listen_session_def reconnects_def res_simps)
qed

definition ex_session :: "subscription \<Rightarrow> session" where
  "ex_session rest = \<lparr>se_subscribe = Inr (take 1 ex_sub @ rest), se_load_node = ex_node_a\<rparr>"

theorem stream_failure_is_fatal_witness:
  "listen_for_all_blocks ref_api default_cache
     [ex_session [(ex_node_a, SubError ''connection reset'')], ex_session (tl ex_sub)] =
   ([], Some (Err (Subxt ''connection reset'')))"
proof -
  obtain st where "load_header_metadata_cache ref_api ex_node_a default_cache
      (take 1 ex_sub @ [(ex_node_a, SubError ''connection reset'')]) =
      Some (Inr (st, [(ex_node_a, SubError ''connection reset'')]))"
    by (simp add: load_header_metadata_cache_def load_range_def ex_defs is_canonical_block_def res_simps
        fetch_header_def Let_def saturating_sub_def CACHE_HEADER_DEPTH_def range_incl_def upt_rec
        canonical_header_def add_header_def rebuild_header_def)
  then show ?thesis
    using stream_failure_is_fatal [of "ex_session [(ex_node_a, SubError ''connection reset'')]"
        "take 1 ex_sub @ [(ex_node_a, SubError ''connection reset'')]" ref_api default_cache st "[]"
        ex_node_a "SubError ''connection reset''" "[]" st "[]" "Subxt ''connection reset''" "''connection reset''"]
    by (simp add: ex_session_def listen_for_blocks_def)
qed

end
