(* ===== verification/P2p_Network.thy ===== *)
theory P2p_Network
  imports Errors
begin

text \<open>
  The p2p task (\<^verbatim>\<open>alerter/src/p2p_network.rs\<close>): it dials the bootnodes, keeps track of the
  roles of connected peers, and broadcasts every proof-of-time notification with the time of
  its arrival.

  The libp2p swarm belongs to another crate.  Its events are the inputs of the task, and what
  the task asks of it (dialling, adding addresses, querying) is recorded as actions, together
  with the broadcasts; failures of these calls are only logged by the program.
\<close>

type_synonym slot = u64

text \<open>
  The proof of time is only passed on: its 16-byte arrays are words of 128 bits, and the array of
  checkpoints is a list.
\<close>

datatype pot_seed = PotSeed u128
datatype pot_output = PotOutput u128
datatype pot_checkpoints = PotCheckpoints "pot_output list"

record gossip_proof =
  gp_slot :: slot
  gp_seed :: pot_seed
  gp_slot_iterations :: u32
  gp_checkpoints :: pot_checkpoints

record pot_info =
  pi_at :: instant
  pi_proof :: gossip_proof

type_synonym peer_id = "u8 list"

datatype addr_protocol = P2p peer_id | OtherAddr string

type_synonym multiaddr = "addr_protocol list"

datatype protocol_role = FullNode | LightNode | Authority

datatype 'm notifications_event =
    ProtocolOpen peer_id protocol_role
  | ProtocolClosed peer_id
  | Notification peer_id 'm

datatype kad_event = RoutablePeer peer_id multiaddr | OtherKad

datatype behavior_event =
    Discovery kad_event
  | PotNotifications "gossip_proof notifications_event"
  | BlockAnnounce "u8 list notifications_event"
  | ConnectionLimits

datatype swarm_event =
    Behaviour behavior_event
  | ConnectionClosed peer_id u32
  | OtherSwarm

datatype net_action =
    Dial multiaddr
  | AddAddress peer_id multiaddr
  | GetClosestPeers peer_id
  | SendPot pot_info

text \<open>
  The settings the swarm is built with, and what the builder's fallible steps returned (\<open>se_tcp\<close>,
  \<open>se_dns\<close>, \<open>se_behaviour\<close>, \<open>se_listen\<close>); \<open>se_hex\<close> is \<open>hex::encode\<close> of the genesis hash.
\<close>

datatype substream_protocol = NamedProtocol string | BlockAnnounceOf h256

record swarm =
  sw_pot_notifications :: substream_protocol
  sw_block_announce :: substream_protocol
  sw_record_ttl :: "duration option"
  sw_provider_ttl :: "duration option"
  sw_query_timeout :: duration
  sw_discovery_chain :: string
  sw_max_established :: "u32 option"
  sw_max_established_incoming :: "u32 option"
  sw_max_established_outgoing :: "u32 option"
  sw_idle_connection_timeout :: duration

record swarm_env =
  se_tcp :: "unit option"
  se_dns :: "string + unit"
  se_behaviour :: "unit option"
  se_hex :: "h256 \<Rightarrow> string"
  se_listen :: "string \<Rightarrow> unit option"

record network =
  nw_swarm :: swarm
  nw_bootnodes :: "multiaddr list"
  nw_authorities :: "peer_id set"
  nw_fullnodes :: "peer_id set"

definition POT_PROTOCOL :: string where
  "POT_PROTOCOL = ''/subspace/subspace-proof-of-time/1''"

definition swarm_of :: "swarm_env \<Rightarrow> h256 \<Rightarrow> swarm" where
  "swarm_of env genesis_hash =
     \<lparr>sw_pot_notifications = NamedProtocol POT_PROTOCOL,
      sw_block_announce = BlockAnnounceOf genesis_hash,
      sw_record_ttl = Some (duration_from_secs (60 * 30)),
      sw_provider_ttl = Some (duration_from_secs (60 * 30)),
      sw_query_timeout = duration_from_secs (5 * 60),
      sw_discovery_chain = se_hex env genesis_hash,
      sw_max_established = Some 500,
      sw_max_established_incoming = Some 500,
      sw_max_established_outgoing = Some 500,
      sw_idle_connection_timeout = duration_from_secs (- 1)\<rparr>"

definition build_swarm :: "swarm_env \<Rightarrow> h256 \<Rightarrow> swarm result" where
  "build_swarm env genesis_hash =
     bind_res (expect ''infallible tcp transport'' (se_tcp env)) (\<lambda>_.
     bind_res (try_from ForIo (se_dns env)) (\<lambda>_.
     bind_res (expect ''infallible behavior construction'' (se_behaviour env)) (\<lambda>_.
     bind_res (expect ''Valid listen address; qed'' (se_listen env ''/ip4/0.0.0.0/tcp/0'')) (\<lambda>_.
     Inr (swarm_of env genesis_hash)))))"

definition new_network :: "swarm_env \<Rightarrow> multiaddr list \<Rightarrow> h256 \<Rightarrow> network result" where
  "new_network env bootnodes genesis_hash =
     bind_res (build_swarm env genesis_hash) (\<lambda>swarm.
     Inr \<lparr>nw_swarm = swarm, nw_bootnodes = bootnodes, nw_authorities = {}, nw_fullnodes = {}\<rparr>)"

fun add_peer_role :: "network \<Rightarrow> peer_id \<Rightarrow> protocol_role \<Rightarrow> network" where
  "add_peer_role nw peer FullNode =
     nw\<lparr>nw_authorities := nw_authorities nw - {peer}, nw_fullnodes := insert peer (nw_fullnodes nw)\<rparr>"
| "add_peer_role nw peer LightNode = nw"
| "add_peer_role nw peer Authority =
     nw\<lparr>nw_fullnodes := nw_fullnodes nw - {peer}, nw_authorities := insert peer (nw_authorities nw)\<rparr>"

text \<open>\<open>now\<close> is the reading of \<open>Instant::now()\<close> while the event is handled.\<close>

fun handle_event :: "instant \<Rightarrow> network \<Rightarrow> swarm_event \<Rightarrow> network \<times> net_action list" where
  "handle_event now nw (Behaviour (Discovery (RoutablePeer peer address))) = (nw, [Dial address])"
| "handle_event now nw (Behaviour (Discovery OtherKad)) = (nw, [])"
| "handle_event now nw (Behaviour (PotNotifications (ProtocolOpen peer role))) = (add_peer_role nw peer role, [])"
| "handle_event now nw (Behaviour (PotNotifications (ProtocolClosed peer))) = (nw, [])"
| "handle_event now nw (Behaviour (PotNotifications (Notification peer message))) =
     (nw, [SendPot \<lparr>pi_at = now, pi_proof = message\<rparr>])"
| "handle_event now nw (Behaviour (BlockAnnounce (ProtocolOpen peer role))) = (add_peer_role nw peer role, [])"
| "handle_event now nw (Behaviour (BlockAnnounce (ProtocolClosed peer))) = (nw, [])"
| "handle_event now nw (Behaviour (BlockAnnounce (Notification peer message))) = (nw, [])"
| "handle_event now nw (Behaviour ConnectionLimits) = (nw, [])"
| "handle_event now nw (ConnectionClosed peer num_established) =
     (if num_established = 0 then
        (nw\<lparr>nw_authorities := nw_authorities nw - {peer}, nw_fullnodes := nw_fullnodes nw - {peer}\<rparr>, [])
      else (nw, []))"
| "handle_event now nw OtherSwarm = (nw, [])"

fun extract_peer_id :: "multiaddr \<Rightarrow> peer_id option" where
  "extract_peer_id [] = None"
| "extract_peer_id (P2p peer # addr) = Some peer"
| "extract_peer_id (OtherAddr p # addr) = extract_peer_id addr"

text \<open>The \<open>for\<close> loop over the bootnodes at the start of \<open>run\<close>.\<close>

definition dial_bootnodes :: "network \<Rightarrow> net_action list" where
  "dial_bootnodes nw =
     concat (map (\<lambda>addr. Dial addr #
       (case extract_peer_id addr of Some peer \<Rightarrow> [AddAddress peer addr] | None \<Rightarrow> [])) (nw_bootnodes nw))"

text \<open>What \<open>select!\<close> wakes up for: the discovery timer, with the random peer id drawn, or the swarm.\<close>

datatype net_input = DiscoveryTick peer_id | SwarmNext instant swarm_event

fun net_step :: "network \<Rightarrow> net_input \<Rightarrow> (network, net_action, error failure) step_result" where
  "net_step nw (DiscoveryTick peer) = (nw, [GetClosestPeers peer], None)"
| "net_step nw (SwarmNext now ev) = (case handle_event now nw ev of (nw', acts) \<Rightarrow> (nw', acts, None))"

definition run_network :: "network \<Rightarrow> net_input list \<Rightarrow> (network, net_action, error failure) step_result" where
  "run_network nw ins =
     (case run_loop net_step nw ins of (nw', acts, r) \<Rightarrow> (nw', dial_bootnodes nw @ acts, r))"

section \<open>Roles\<close>

text \<open>No peer is counted under two roles.\<close>

definition roles_disjoint :: "network \<Rightarrow> bool" where
  "roles_disjoint nw \<longleftrightarrow> nw_authorities nw \<inter> nw_fullnodes nw = {}"

text \<open>The abstract view: each peer has at most one tracked role.\<close>

definition role_of :: "network \<Rightarrow> peer_id \<Rightarrow> protocol_role option" where
  "role_of nw peer =
     (if peer \<in> nw_authorities nw then Some Authority
      else if peer \<in> nw_fullnodes nw then Some FullNode else None)"

text \<open>How one input changes the tracked role of a peer.\<close>

fun role_step :: "peer_id \<Rightarrow> net_input \<Rightarrow> protocol_role option \<Rightarrow> protocol_role option" where
  "role_step p (SwarmNext now (Behaviour (PotNotifications (ProtocolOpen q role)))) r =
     (if q = p \<and> role \<noteq> LightNode then Some role else r)"
| "role_step p (SwarmNext now (Behaviour (BlockAnnounce (ProtocolOpen q role)))) r =
     (if q = p \<and> role \<noteq> LightNode then Some role else r)"
| "role_step p (SwarmNext now (ConnectionClosed q n)) r = (if q = p \<and> n = 0 then None else r)"
| "role_step p i r = r"

text \<open>The proofs broadcast by a list of actions, and the notifications in a list of inputs.\<close>

definition sent_proofs :: "net_action list \<Rightarrow> pot_info list" where
  "sent_proofs acts = concat (map (\<lambda>a. case a of SendPot p \<Rightarrow> [p] | _ \<Rightarrow> []) acts)"

fun notified_proof :: "net_input \<Rightarrow> pot_info list" where
  "notified_proof (SwarmNext now (Behaviour (PotNotifications (Notification peer message)))) =
     [\<lparr>pi_at = now, pi_proof = message\<rparr>]"
| "notified_proof i = []"

text \<open>A host on which the swarm can be built.\<close>

definition plain_swarm_env :: swarm_env where
  "plain_swarm_env =
     \<lparr>se_tcp = Some (), se_dns = Inr (), se_behaviour = Some (), se_hex = (\<lambda>h. show_word h), se_listen = (\<lambda>_. Some ())\<rparr>"

lemma role_of_add_peer_role:
  "role_of (add_peer_role nw q role) p =
     (if q = p \<and> role \<noteq> LightNode then Some role else role_of nw p)"
  by (cases role) (auto simp: role_of_def)

lemma net_step_shape: "\<exists>nw' acts. net_step nw i = (nw', acts, None)"
  by (cases "(nw, i)" rule: net_step.cases) (auto split: prod.splits)

lemma net_step_role: "net_step nw i = (nw', acts, r) \<Longrightarrow> role_of nw' p = role_step p i (role_of nw p)"
proof (cases i)
  case (SwarmNext now ev)
  assume "net_step nw i = (nw', acts, r)"
  with SwarmNext show ?thesis
    by (cases "(now, nw, ev)" rule: handle_event.cases)
      (auto simp: role_of_add_peer_role split: if_splits, auto simp: role_of_def)
qed auto

lemma net_step_sent: "net_step nw i = (nw', acts, r) \<Longrightarrow> sent_proofs acts = notified_proof i"
proof (cases i)
  case (SwarmNext now ev)
  assume "net_step nw i = (nw', acts, r)"
  with SwarmNext show ?thesis
    by (cases "(now, nw, ev)" rule: handle_event.cases) (auto simp: sent_proofs_def split: if_splits)
qed (auto simp: sent_proofs_def)

lemma add_peer_role_disjoint: "roles_disjoint nw \<Longrightarrow> roles_disjoint (add_peer_role nw p role)"
  by (cases role) (auto simp: roles_disjoint_def)

lemma net_step_disjoint: "roles_disjoint nw \<Longrightarrow> net_step nw i = (nw', acts, r) \<Longrightarrow> roles_disjoint nw'"
proof (cases i)
  case (SwarmNext now ev)
  assume "roles_disjoint nw" "net_step nw i = (nw', acts, r)"
  with SwarmNext show ?thesis
    by (cases "(now, nw, ev)" rule: handle_event.cases)
      (auto simp: add_peer_role_disjoint, auto simp: roles_disjoint_def split: if_splits)
qed auto

interpretation net: loop_contract net_step roles_disjoint "\<lambda>_. True" "\<lambda>_. True" "\<lambda>_. False"
proof (unfold_locales, goal_cases)
  case (1 s i s' os r)
  then show ?case by (auto intro: net_step_disjoint)
next
  case (3 s i s' os f)
  then show ?case using net_step_shape [of s i] by auto
qed simp

lemma sent_proofs_append [simp]: "sent_proofs (xs @ ys) = sent_proofs xs @ sent_proofs ys"
  by (simp add: sent_proofs_def)

lemma sent_proofs_bootnodes [simp]: "sent_proofs (dial_bootnodes nw) = []"
proof -
  have "sent_proofs (concat (map (\<lambda>addr. Dial addr #
      (case extract_peer_id addr of Some peer \<Rightarrow> [AddAddress peer addr] | None \<Rightarrow> [])) addrs)) = []" for addrs
    by (induction addrs) (auto simp: sent_proofs_def split: option.splits)
  then show ?thesis by (simp add: dial_bootnodes_def)
qed

lemma run_loop_net:
  "run_loop net_step nw ins = (nw', acts, r) \<Longrightarrow>
   r = None \<and> sent_proofs acts = concat (map notified_proof ins) \<and>
   role_of nw' p = fold (role_step p) ins (role_of nw p)"
proof (induction ins arbitrary: nw acts)
  case (Cons i ins)
  obtain nw1 a1 where b: "net_step nw i = (nw1, a1, None)" using net_step_shape by blast
  with Cons.prems obtain a2 where rest: "run_loop net_step nw1 ins = (nw', a2, r)" and "acts = a1 @ a2"
    by (auto split: prod.splits)
  with Cons.IH [OF rest] net_step_role [OF b] net_step_sent [OF b] show ?case by simp
qed (simp add: sent_proofs_def)

section \<open>Properties\<close>

text \<open>
  C17: The network task never ends; at every moment no peer is counted both as an authority
  and as a full node, and the role the task has for a peer is the one of the latest event
  about it: the last role other than light node it opened a substream with, or none once its
  last connection is closed.
\<close>

theorem peer_roles_tracked:
  assumes "new_network env bootnodes genesis_hash = Inr nw"
  shows "\<exists>nw' acts. run_network nw ins = (nw', acts, None) \<and> roles_disjoint nw' \<and>
     role_of nw' p = fold (role_step p) ins None"
proof -
  obtain nw' acts r where run: "run_loop net_step nw ins = (nw', acts, r)"
    by (metis prod_cases3)
  have nw: "nw_authorities nw = {}" "nw_fullnodes nw = {}"
    using assms by (auto simp: new_network_def bind_res_eq_Inr)
  then have "roles_disjoint nw" by (simp add: roles_disjoint_def)
  from net.run_inv [OF this _ run] have "roles_disjoint nw'" by (simp add: list_all_iff)
  moreover from nw have "role_of nw p = None" by (simp add: role_of_def)
  ultimately show ?thesis using run run_loop_net [OF run, of p] by (simp add: run_network_def)
qed

theorem peer_roles_tracked_witness:
  "\<exists>nw. new_network plain_swarm_env [] 7 = Inr nw \<and>
     (\<exists>nw' acts.
       run_network nw
         [SwarmNext 1 (Behaviour (PotNotifications (ProtocolOpen [1] FullNode))),
          SwarmNext 2 (Behaviour (BlockAnnounce (ProtocolOpen [1] Authority)))] = (nw', acts, None) \<and>
       role_of nw' [1] = Some Authority)"
  using peer_roles_tracked [of plain_swarm_env "[]" 7 _
      "[SwarmNext 1 (Behaviour (PotNotifications (ProtocolOpen [1] FullNode))),
        SwarmNext 2 (Behaviour (BlockAnnounce (ProtocolOpen [1] Authority)))]" "[1]"]
  by (simp add: new_network_def build_swarm_def plain_swarm_env_def expect_def question_def) blast

text \<open>
  C31: Every proof-of-time notification is broadcast exactly once, unchanged and in the order of
  arrival, with the time at which it was handled; nothing else is broadcast.
\<close>

theorem pot_notifications_forwarded:
  "sent_proofs (loop_out (run_network nw ins)) = concat (map notified_proof ins)"
  by (cases "run_loop net_step nw ins") (auto simp: run_network_def dest: run_loop_net)

text \<open>
  The peer id of a multiaddress is that of its first p2p component, and there is none
  exactly when the address has no p2p component.
\<close>

theorem extract_peer_id_first:
  "extract_peer_id addr = map_option (\<lambda>p. case p of P2p peer \<Rightarrow> peer | OtherAddr _ \<Rightarrow> [])
     (find (\<lambda>p. \<exists>peer. p = P2p peer) addr)"
  by (induction addr rule: extract_peer_id.induct) auto

end
