(* ===== verification/Alerts.thy ===== *)
theory Alerts
  imports Block_Listener P2p_Network
begin

text \<open>
  The alerts that the monitors send to the Slack task: the payload structs of
  \<^verbatim>\<open>alerter/src/stall_and_reorg.rs\<close> and \<^verbatim>\<open>alerter/src/slots.rs\<close>, and the enum
  \<open>Alert\<close> of \<^verbatim>\<open>alerter/src/slack.rs\<close>.
\<close>

record chain_stall =
  cs_last_block :: hash_and_number
  cs_duration :: duration

record chain_recovery =
  cr_best_block :: hash_and_number
  cr_duration :: duration

record chain_reorg =
  co_best_block :: hash_and_number
  co_common_block :: hash_and_number
  co_enacted :: "hash_and_number list"
  co_retracted :: "hash_and_number list"

record timekeeper_stall =
  ts_last_slot :: slot
  ts_duration :: duration

record timekeeper_recovery =
  tr_slot :: slot
  tr_duration :: duration

record slow_slot =
  ss_slot :: slot
  ss_previous_slot :: slot
  ss_slot_time :: duration
  ss_threshold :: duration

record avg_slow_slot =
  as_slot :: slot
  as_slot_count :: nat
  as_avg_slot_time :: duration
  as_threshold :: duration

datatype alert =
    Event event
  | ChainStall chain_stall
  | ChainRecovery chain_recovery
  | Reorg chain_reorg
  | TimekeeperStall timekeeper_stall
  | TimekeeperRecovery timekeeper_recovery
  | SlowSlot slow_slot
  | AvgSlowSlots avg_slow_slot

text \<open>
  The alerts of a list that carry an event of a block or a reorg, that report a slow slot, and
  that report a slow average.
\<close>

definition event_alerts :: "alert list \<Rightarrow> event list" where
  "event_alerts alerts = concat (map (\<lambda>a. case a of Event e \<Rightarrow> [e] | _ \<Rightarrow> []) alerts)"

definition reorgs :: "alert list \<Rightarrow> chain_reorg list" where
  "reorgs alerts = concat (map (\<lambda>a. case a of Reorg r \<Rightarrow> [r] | _ \<Rightarrow> []) alerts)"

definition slow_slots :: "alert list \<Rightarrow> slow_slot list" where
  "slow_slots alerts = concat (map (\<lambda>a. case a of SlowSlot s \<Rightarrow> [s] | _ \<Rightarrow> []) alerts)"

definition averages :: "alert list \<Rightarrow> avg_slow_slot list" where
  "averages alerts = concat (map (\<lambda>a. case a of AvgSlowSlots s \<Rightarrow> [s] | _ \<Rightarrow> []) alerts)"

lemma event_alerts_map [simp]: "event_alerts (map Event es) = es"
  by (induction es) (simp_all add: event_alerts_def)

lemma reorgs_append [simp]: "reorgs (xs @ ys) = reorgs xs @ reorgs ys"
  by (simp add: reorgs_def)

lemma slow_slots_append [simp]: "slow_slots (xs @ ys) = slow_slots xs @ slow_slots ys"
  by (simp add: slow_slots_def)

lemma averages_append [simp]: "averages (xs @ ys) = averages xs @ averages ys"
  by (simp add: averages_def)

lemma averages_simps [simp]:
  "averages [] = []" "averages (AvgSlowSlots a # xs) = a # averages xs"
  "averages (SlowSlot s # xs) = averages xs" "averages (TimekeeperStall t # xs) = averages xs"
  "averages (TimekeeperRecovery r # xs) = averages xs"
  by (simp_all add: averages_def)

lemma reorgs_simps [simp]:
  "reorgs [] = []" "reorgs (Reorg r # xs) = r # reorgs xs"
  "reorgs (ChainStall s # xs) = reorgs xs" "reorgs (ChainRecovery c # xs) = reorgs xs"
  by (simp_all add: reorgs_def)

lemma slow_slots_simps [simp]:
  "slow_slots [] = []" "slow_slots (SlowSlot s # xs) = s # slow_slots xs"
  "slow_slots (TimekeeperStall t # xs) = slow_slots xs"
  "slow_slots (TimekeeperRecovery r # xs) = slow_slots xs"
  "slow_slots (AvgSlowSlots a # xs) = slow_slots xs"
  by (simp_all add: slow_slots_def)

end
