(* ===== verification/Cli.thy ===== *)
theory Cli
  imports Prelude
begin

text \<open>
  The command line (\<^verbatim>\<open>alerter/src/cli.rs\<close>): the configuration structs, and how
  \<open>Config::parse\<close> fills them from the options given.  An option that is left out takes the
  default text of its \<^verbatim>\<open>#[arg(..)]\<close> attribute, and the text is then parsed, default or
  not.  The parsers of durations (\<open>humantime\<close>) and of integers belong to other crates and are
  arguments; when an option is missing or malformed clap ends the process, \<open>None\<close> here.
\<close>

type_synonym usize = u64

record uptimekuma_config =
  uptimekuma_url :: "string option"
  uptimekuma_interval :: duration

record stall_and_reorg_config =
  non_block_import_threshold :: duration
  reorg_depth_threshold :: usize

record slack_config =
  slack_team_id :: string
  slack_bot_name :: string
  slack_bot_icon :: string
  slack_channel_name :: string
  slack_secret_path :: string

record slots_config =
  per_slot_threshold :: duration
  avg_slot_threshold :: duration

record config =
  rpc_url :: string
  network_config_path :: string
  uptimekuma :: uptimekuma_config
  stall_and_reorg :: stall_and_reorg_config
  slack :: slack_config
  slots_cfg :: slots_config

text \<open>The options given, by their long names.\<close>

type_synonym cli_args = "string \<rightharpoonup> string"

definition arg_or :: "string \<Rightarrow> string \<Rightarrow> cli_args \<Rightarrow> string" where
  "arg_or name default_value args = (case args name of None \<Rightarrow> default_value | Some v \<Rightarrow> v)"

definition parse_uptimekuma :: "(string \<Rightarrow> duration option) \<Rightarrow> cli_args \<Rightarrow> uptimekuma_config option" where
  "parse_uptimekuma parse_duration args =
     Option.bind (parse_duration (arg_or ''uptimekuma-interval'' ''60s'' args)) (\<lambda>interval.
     Some \<lparr>uptimekuma_url = args ''uptimekuma-url'', uptimekuma_interval = interval\<rparr>)"

definition parse_stall_and_reorg ::
  "(string \<Rightarrow> duration option) \<Rightarrow> (string \<Rightarrow> usize option) \<Rightarrow> cli_args \<Rightarrow> stall_and_reorg_config option" where
  "parse_stall_and_reorg parse_duration parse_usize args =
     Option.bind (parse_duration (arg_or ''non-block-import-threshold'' ''60s'' args)) (\<lambda>threshold.
     Option.bind (parse_usize (arg_or ''reorg-depth-threshold'' ''6'' args)) (\<lambda>depth.
     Some \<lparr>non_block_import_threshold = threshold, reorg_depth_threshold = depth\<rparr>))"

definition parse_slack :: "cli_args \<Rightarrow> slack_config option" where
  "parse_slack args =
     Option.bind (args ''slack-bot-name'') (\<lambda>bot_name.
     Option.bind (args ''slack-channel-name'') (\<lambda>channel_name.
     Some \<lparr>slack_team_id = arg_or ''slack-team-id'' ''T03LJ85UR5G'' args, slack_bot_name = bot_name,
           slack_bot_icon = arg_or ''slack-bot-icon'' ''robot_face'' args,
           slack_channel_name = channel_name,
           slack_secret_path = arg_or ''slack-secret-path'' ''/slack-secret'' args\<rparr>))"

definition parse_slots :: "(string \<Rightarrow> duration option) \<Rightarrow> cli_args \<Rightarrow> slots_config option" where
  "parse_slots parse_duration args =
     Option.bind (parse_duration (arg_or ''per-slot-threshold'' ''1.2s'' args)) (\<lambda>per_slot.
     Option.bind (parse_duration (arg_or ''avg-slot-threshold'' ''1.1s'' args)) (\<lambda>avg_slot.
     Some \<lparr>per_slot_threshold = per_slot, avg_slot_threshold = avg_slot\<rparr>))"

definition parse_config ::
  "(string \<Rightarrow> duration option) \<Rightarrow> (string \<Rightarrow> usize option) \<Rightarrow> cli_args \<Rightarrow> config option" where
  "parse_config parse_duration parse_usize args =
     Option.bind (args ''rpc-url'') (\<lambda>url.
     Option.bind (parse_uptimekuma parse_duration args) (\<lambda>uptime.
     Option.bind (parse_stall_and_reorg parse_duration parse_usize args) (\<lambda>stall.
     Option.bind (parse_slack args) (\<lambda>sl.
     Option.bind (parse_slots parse_duration args) (\<lambda>slots.
     Some \<lparr>rpc_url = url, network_config_path = arg_or ''network-config-path'' ''/networks.toml'' args,
           uptimekuma = uptime, stall_and_reorg = stall, slack = sl, slots_cfg = slots\<rparr>)))))"

lemmas parse_defs =
  parse_config_def parse_uptimekuma_def parse_stall_and_reorg_def parse_slack_def parse_slots_def

lemma bind_neq_None: "Option.bind x f \<noteq> None \<longleftrightarrow> (\<exists>a. x = Some a \<and> f a \<noteq> None)"
  by (cases x) auto

text \<open>
  The command line is accepted exactly when the three required options are given and the
  texts of the four durations and of the reorg depth, given or default, are well-formed:
  everything else has a default and no other option can be rejected.
\<close>

theorem parse_config_accepts:
  "parse_config parse_duration parse_usize args \<noteq> None \<longleftrightarrow>
     {''rpc-url'', ''slack-bot-name'', ''slack-channel-name''} \<subseteq> dom args \<and>
     parse_usize (arg_or ''reorg-depth-threshold'' ''6'' args) \<noteq> None \<and>
     (\<forall>(name, text) \<in> {(''uptimekuma-interval'', ''60s''), (''non-block-import-threshold'', ''60s''),
         (''per-slot-threshold'', ''1.2s''), (''avg-slot-threshold'', ''1.1s'')}.
       parse_duration (arg_or name text args) \<noteq> None)"
  unfolding parse_defs bind_neq_None Option.bind_assoc by (auto simp del: not_None_eq)

theorem parse_config_accepts_witness:
  "parse_config (\<lambda>s. if s = [] then None else Some (length s)) (\<lambda>_. Some 6)
     [''rpc-url'' \<mapsto> ''ws://localhost'', ''slack-bot-name'' \<mapsto> ''bot'', ''slack-channel-name'' \<mapsto> ''#alerts''] \<noteq> None"
  unfolding parse_config_accepts by (simp add: arg_or_def)

end
