(* ===== verification/Stall_Reorg.thy ===== *)
theory Stall_Reorg
  imports Alerts Cli
begin

text \<open>
  The chain monitor (\<^verbatim>\<open>alerter/src/stall_and_reorg.rs\<close>): it waits for the next broadcast
  of the block follower with a timeout, and alerts when block import stalls, when it resumes,
  and when a reorg is deep enough.

  \<open>watch_step\<close> is one round of the loop.  A send into the unbounded alert channel is an output
  of the step; the program only logs a failed send.
\<close>

record watch_state =
  ws_timeout_fired :: "duration option"
  ws_maybe_last_best_block :: "hash_and_number option"

definition watch_init :: watch_state where
  "watch_init = \<lparr>ws_timeout_fired = None, ws_maybe_last_best_block = None\<rparr>"

definition block_id :: "block_ext \<Rightarrow> hash_and_number" where
  "block_id b = \<lparr>hn_number = be_number b, hn_hash = be_hash b\<rparr>"

definition recovery_alert :: "duration option \<Rightarrow> hash_and_number \<Rightarrow> alert list" where
  "recovery_alert last_timeout best =
     (case last_timeout of None \<Rightarrow> []
      | Some timeout \<Rightarrow> [ChainRecovery \<lparr>cr_best_block = best, cr_duration = timeout\<rparr>])"

definition reorg_alert :: "stall_and_reorg_config \<Rightarrow> hash_and_number \<Rightarrow> reorg_data option \<Rightarrow> alert list" where
  "reorg_alert cfg best maybe_reorg =
     (case maybe_reorg of None \<Rightarrow> []
      | Some rd \<Rightarrow>
          if length (rd_retracted rd) \<ge> unat (reorg_depth_threshold cfg)
          then [Reorg \<lparr>co_best_block = best, co_common_block = rd_common_block rd,
                       co_enacted = rd_enacted rd, co_retracted = rd_retracted rd\<rparr>]
          else [])"

definition stall_alert :: "watch_state \<Rightarrow> duration \<Rightarrow> alert list" where
  "stall_alert s d =
     (case ws_maybe_last_best_block s of None \<Rightarrow> []
      | Some best \<Rightarrow> [ChainStall \<lparr>cs_last_block = best, cs_duration = d\<rparr>])"

fun watch_step ::
  "stall_and_reorg_config \<Rightarrow> watch_state \<Rightarrow> blocks_ext timed_recv \<Rightarrow>
   (watch_state, alert, error failure) step_result" where
  "watch_step cfg s (Recv (Inl err)) = (s, [], Some (Err (error_from (ForRecv err))))"
| "watch_step cfg s (Recv (Inr bx)) =
     (if bx_blocks bx = [] then
        (s\<lparr>ws_timeout_fired := None\<rparr>, [], Some (Panic ''There is always at least one block imported; qed''))
      else
        (let best = block_id (last (bx_blocks bx)) in
         (\<lparr>ws_timeout_fired = None, ws_maybe_last_best_block = Some best\<rparr>,
          recovery_alert (ws_timeout_fired s) best @ reorg_alert cfg best (bx_maybe_reorg_data bx), None)))"
| "watch_step cfg s Elapsed =
     (let d = next_stall (non_block_import_threshold cfg) (ws_timeout_fired s) in
      (s\<lparr>ws_timeout_fired := Some d\<rparr>, stall_alert s d, None))"

definition watch_chain_stall_and_reorg ::
  "stall_and_reorg_config \<Rightarrow> blocks_ext timed_recv list \<Rightarrow> (watch_state, alert, error failure) step_result" where
  "watch_chain_stall_and_reorg cfg ins = run_loop (watch_step cfg) watch_init ins"

section \<open>Contracts\<close>

text \<open>A broadcast that carries at least one block, or an error of the channel.\<close>

fun watch_input_ok :: "blocks_ext timed_recv \<Rightarrow> bool" where
  "watch_input_ok (Recv (Inr bx)) \<longleftrightarrow> bx_blocks bx \<noteq> []"
| "watch_input_ok _ \<longleftrightarrow> True"

text \<open>The alerts of this monitor.\<close>

fun chain_alert :: "alert \<Rightarrow> bool" where
  "chain_alert (ChainStall _) \<longleftrightarrow> True"
| "chain_alert (ChainRecovery _) \<longleftrightarrow> True"
| "chain_alert (Reorg _) \<longleftrightarrow> True"
| "chain_alert _ \<longleftrightarrow> False"

definition recv_failure :: "error failure \<Rightarrow> bool" where
  "recv_failure f \<longleftrightarrow> (\<exists>e. f = Err (BroadRecvErr e))"

text \<open>
  The reorg alert that one input calls for, stated on the input alone: it does not depend on
  what the monitor has seen before.
\<close>

fun reorg_due :: "stall_and_reorg_config \<Rightarrow> blocks_ext timed_recv \<Rightarrow> chain_reorg list" where
  "reorg_due cfg (Recv (Inr bx)) =
     (case bx_maybe_reorg_data bx of
        Some rd \<Rightarrow>
          if unat (reorg_depth_threshold cfg) \<le> length (rd_retracted rd)
          then [\<lparr>co_best_block = block_id (last (bx_blocks bx)), co_common_block = rd_common_block rd,
                 co_enacted = rd_enacted rd, co_retracted = rd_retracted rd\<rparr>]
          else []
      | None \<Rightarrow> [])"
| "reorg_due cfg _ = []"

lemma reorgs_watch_alerts [simp]:
  "reorgs (recovery_alert t best) = []" "reorgs (stall_alert s d) = []"
  by (auto simp: recovery_alert_def stall_alert_def split: option.splits)

lemma watch_step_fail: "watch_input_ok i \<Longrightarrow> watch_step cfg s i = (s', os, Some f) \<Longrightarrow> recv_failure f"
  by (cases "(cfg, s, i)" rule: watch_step.cases) (auto simp: recv_failure_def Let_def)

lemma watch_step_alerts: "watch_step cfg s i = (s', os, r) \<Longrightarrow> list_all chain_alert os"
  by (cases "(cfg, s, i)" rule: watch_step.cases)
    (auto simp: Let_def recovery_alert_def reorg_alert_def stall_alert_def split: if_splits option.splits)

interpretation watch: loop_contract "watch_step cfg" "\<lambda>_. True" watch_input_ok chain_alert recv_failure
  for cfg :: stall_and_reorg_config
  by unfold_locales (use watch_step_alerts watch_step_fail in \<open>auto simp: list_all_iff\<close>)

interpretation watch_stall: stalling_task "watch_step cfg" ws_timeout_fired "non_block_import_threshold cfg"
  stall_alert "\<lambda>x s. s\<lparr>ws_timeout_fired := x\<rparr>" for cfg :: stall_and_reorg_config
  by unfold_locales (simp_all add: Let_def stall_alert_def)

lemma watch_step_reorgs:
  "watch_input_ok i \<Longrightarrow> watch_step cfg s i = (s', os, r) \<Longrightarrow> reorgs os = reorg_due cfg i"
  by (cases "(cfg, s, i)" rule: watch_step.cases)
    (auto simp: Let_def reorg_alert_def split: if_splits option.splits)

lemma run_watch_reorgs:
  "list_all watch_input_ok ins \<Longrightarrow> run_loop (watch_step cfg) s ins = (s', os, None) \<Longrightarrow>
   reorgs os = concat (map (reorg_due cfg) ins)"
proof (induction ins arbitrary: s os)
  case (Cons i ins)
  obtain t o1 r where b: "watch_step cfg s i = (t, o1, r)" by (metis prod_cases3)
  with Cons.prems obtain o2 where "run_loop (watch_step cfg) t ins = (s', o2, None)" and "os = o1 @ o2"
    by (auto split: prod.splits option.splits)
  with Cons b show ?case by (auto dest: watch_step_reorgs)
qed simp

lemma reorg_alert_due:
  "reorg_alert cfg (block_id (last (bx_blocks bx))) (bx_maybe_reorg_data bx) =
   map Reorg (reorg_due cfg (Recv (Inr bx)))"
  by (auto simp: reorg_alert_def split: option.splits)

lemma run_watch_last:
  assumes "run_loop (watch_step cfg) s0 (past @ [Recv (Inr b)]) = (s, alerts, None)"
  shows "s = \<lparr>ws_timeout_fired = None, ws_maybe_last_best_block = Some (block_id (last (bx_blocks b)))\<rparr>"
proof -
  obtain t os r where past: "run_loop (watch_step cfg) s0 past = (t, os, r)" by (metis prod_cases3)
  with assms have "r = None" by (cases r) (simp_all add: run_loop_append_halt)
  with past assms run_loop_append [of "watch_step cfg" s0 past t os "[Recv (Inr b)]"] show ?thesis
    by (auto simp: Let_def split: if_splits)
qed

text \<open>A stall of \<open>k\<close> timeouts ended by a broadcast, from any state with a clear clock.\<close>

lemma run_stall_then_block:
  assumes "ws_timeout_fired s = None" and "bx_blocks bx \<noteq> []"
  shows "run_loop (watch_step cfg) s (replicate k Elapsed @ [Recv (Inr bx)]) =
    (\<lparr>ws_timeout_fired = None, ws_maybe_last_best_block = Some (block_id (last (bx_blocks bx)))\<rparr>,
     concat (map (\<lambda>i. stall_alert s (stall_length (non_block_import_threshold cfg) i)) [1..<Suc k]) @
     recovery_alert (stall_clock (non_block_import_threshold cfg) k) (block_id (last (bx_blocks bx))) @
     reorg_alert cfg (block_id (last (bx_blocks bx))) (bx_maybe_reorg_data bx), None)"
proof -
  have "ws_timeout_fired s = stall_clock (non_block_import_threshold cfg) 0"
    using assms by (simp add: stall_clock_def)
  from watch_stall.run_elapsed [OF this, of k] run_loop_append assms(2) show ?thesis
    by (fastforce simp: Let_def)
qed

text \<open>
  The abstract monitor: instead of a clock it counts the waits that have timed out in a row,
  and every duration it reports is that number of thresholds.
\<close>

record count_state =
  ct_missed :: nat
  ct_best :: "hash_and_number option"

fun count_step ::
  "stall_and_reorg_config \<Rightarrow> count_state \<Rightarrow> blocks_ext timed_recv \<Rightarrow>
   (count_state, alert, error failure) step_result" where
  "count_step cfg a Elapsed =
     (a\<lparr>ct_missed := Suc (ct_missed a)\<rparr>,
      (case ct_best a of None \<Rightarrow> []
       | Some best \<Rightarrow> [ChainStall \<lparr>cs_last_block = best,
           cs_duration = stall_length (non_block_import_threshold cfg) (Suc (ct_missed a))\<rparr>]), None)"
| "count_step cfg a (Recv (Inl err)) = (a, [], Some (Err (BroadRecvErr err)))"
| "count_step cfg a (Recv (Inr bx)) =
     (if bx_blocks bx = [] then
        (a\<lparr>ct_missed := 0\<rparr>, [], Some (Panic ''There is always at least one block imported; qed''))
      else
        (\<lparr>ct_missed = 0, ct_best = Some (block_id (last (bx_blocks bx)))\<rparr>,
         (if ct_missed a = 0 then []
          else [ChainRecovery \<lparr>cr_best_block = block_id (last (bx_blocks bx)),
                  cr_duration = stall_length (non_block_import_threshold cfg) (ct_missed a)\<rparr>]) @
         map Reorg (reorg_due cfg (Recv (Inr bx))), None))"

definition clock_of :: "stall_and_reorg_config \<Rightarrow> count_state \<Rightarrow> watch_state" where
  "clock_of cfg a =
     \<lparr>ws_timeout_fired = stall_clock (non_block_import_threshold cfg) (ct_missed a),
      ws_maybe_last_best_block = ct_best a\<rparr>"

lemma stall_clock_simps:
  "stall_clock T 0 = None" "stall_clock T (Suc k) = Some (stall_length T (Suc k))"
  by (simp_all add: stall_clock_def)

lemma recovery_alert_clock:
  "recovery_alert (stall_clock T k) best =
     (if k = 0 then [] else [ChainRecovery \<lparr>cr_best_block = best, cr_duration = stall_length T k\<rparr>])"
  by (simp add: recovery_alert_def stall_clock_def)

lemma watch_simulates:
  "count_step cfg a i = (a', os, r) \<Longrightarrow> watch_step cfg (clock_of cfg a) i = (clock_of cfg a', os, r)"
proof (cases "(cfg, a, i)" rule: count_step.cases)
  case 1
  assume "count_step cfg a i = (a', os, r)"
  with 1 show ?thesis
    by (auto simp: clock_of_def stall_alert_def stall_clock_simps split: option.splits)
next
  case (3 _ _ bx)
  assume "count_step cfg a i = (a', os, r)"
  with 3 show ?thesis
    by (auto simp: clock_of_def stall_clock_simps recovery_alert_clock reorg_alert_due
        simp del: reorg_due.simps split: if_splits)
qed auto

interpretation watch_count: loop_refinement "count_step cfg" "watch_step cfg" "clock_of cfg"
  for cfg :: stall_and_reorg_config
  by unfold_locales (rule watch_simulates)

text \<open>A concrete configuration and broadcasts, for the examples.\<close>

definition ex_watch_config :: stall_and_reorg_config where
  "ex_watch_config = \<lparr>non_block_import_threshold = 60 * NANOS_PER_SEC, reorg_depth_threshold = 2\<rparr>"

definition ex_broadcast :: "u32 \<Rightarrow> h256 \<Rightarrow> reorg_data option \<Rightarrow> blocks_ext" where
  "ex_broadcast n h rd =
     \<lparr>bx_blocks = [\<lparr>be_number = n, be_hash = h, be_parent_hash = 0, be_state_root = 0, be_extrinsics_root = 0\<rparr>],
      bx_maybe_reorg_data = rd\<rparr>"

definition ex_reorg :: reorg_data where
  "ex_reorg =
     \<lparr>rd_enacted = [\<lparr>hn_number = 8, hn_hash = 80\<rparr>],
      rd_retracted = [\<lparr>hn_number = 8, hn_hash = 81\<rparr>, \<lparr>hn_number = 9, hn_hash = 91\<rparr>],
      rd_common_block = \<lparr>hn_number = 7, hn_hash = 70\<rparr>\<rparr>"

lemmas ex_watch_eval =
  watch_chain_stall_and_reorg_def watch_init_def ex_watch_config_def ex_broadcast_def ex_reorg_def
  block_id_def recovery_alert_def stall_alert_def reorg_alert_def next_stall_def
  duration_saturating_add_def DURATION_MAX_def duration_from_secs_def NANOS_PER_SEC_def Let_def

section \<open>Properties\<close>

text \<open>
  C8: When \<open>k\<close> waits in a row time out after a broadcast, one stall alert is sent for each of
  them, all naming the last block of that broadcast, with durations of one, two, up to \<open>k\<close>
  thresholds; the next broadcast sends exactly one recovery alert with the whole length of the
  stall and the new best block, followed by the reorg alert if one is due, and the clock is
  clear again.  This holds after any history.
\<close>

theorem stall_reported_until_recovery:
  assumes "watch_chain_stall_and_reorg cfg (past @ [Recv (Inr b1)]) = (s, alerts, None)"
    and "bx_blocks b2 \<noteq> []"
    and "0 < k" and "k * non_block_import_threshold cfg \<le> DURATION_MAX"
  shows "watch_chain_stall_and_reorg cfg (past @ [Recv (Inr b1)] @ replicate k Elapsed @ [Recv (Inr b2)]) =
      (\<lparr>ws_timeout_fired = None, ws_maybe_last_best_block = Some (block_id (last (bx_blocks b2)))\<rparr>,
       alerts @
       map (\<lambda>i. ChainStall \<lparr>cs_last_block = block_id (last (bx_blocks b1)),
                            cs_duration = i * non_block_import_threshold cfg\<rparr>) [1..<Suc k] @
       [ChainRecovery \<lparr>cr_best_block = block_id (last (bx_blocks b2)),
                       cr_duration = k * non_block_import_threshold cfg\<rparr>] @
       map Reorg (reorg_due cfg (Recv (Inr b2))), None)"
proof -
  let ?T = "non_block_import_threshold cfg"
  from run_watch_last [OF assms(1) [unfolded watch_chain_stall_and_reorg_def]]
  have s: "ws_timeout_fired s = None" "ws_maybe_last_best_block s = Some (block_id (last (bx_blocks b1)))"
    by simp_all
  have "i * ?T \<le> DURATION_MAX" if "i \<le> k" for i
    using that assms(4) by (meson le_trans mult_le_mono1)
  then have "stall_length ?T i = i * ?T" if "i \<in> set [1..<Suc k]" for i
    using that by (auto intro: stall_length_exact)
  then have "concat (map (\<lambda>i. stall_alert s (stall_length ?T i)) [1..<Suc k]) =
      map (\<lambda>i. ChainStall \<lparr>cs_last_block = block_id (last (bx_blocks b1)), cs_duration = i * ?T\<rparr>) [1..<Suc k]"
    by (simp add: stall_alert_def s concat_map_singleton cong: map_cong del: upt_Suc)
  moreover have "recovery_alert (stall_clock ?T k) (block_id (last (bx_blocks b2))) =
      [ChainRecovery \<lparr>cr_best_block = block_id (last (bx_blocks b2)), cr_duration = k * ?T\<rparr>]"
    using assms by (simp add: recovery_alert_def stall_clock_def stall_length_exact)
  ultimately show ?thesis
    using run_loop_append [OF assms(1) [unfolded watch_chain_stall_and_reorg_def],
        of "replicate k Elapsed @ [Recv (Inr b2)]"]
      run_stall_then_block [OF s(1) assms(2), of cfg k]
    by (simp add: watch_chain_stall_and_reorg_def reorg_alert_due del: upt_Suc)
qed

theorem stall_reported_until_recovery_witness:
  "loop_out (watch_chain_stall_and_reorg ex_watch_config
     ([Elapsed] @ [Recv (Inr (ex_broadcast 7 70 None))] @ replicate 2 Elapsed @
      [Recv (Inr (ex_broadcast 8 80 None))])) =
   [ChainRecovery \<lparr>cr_best_block = \<lparr>hn_number = 7, hn_hash = 70\<rparr>, cr_duration = 60000000000\<rparr>,
    ChainStall \<lparr>cs_last_block = \<lparr>hn_number = 7, hn_hash = 70\<rparr>, cs_duration = 60000000000\<rparr>,
    ChainStall \<lparr>cs_last_block = \<lparr>hn_number = 7, hn_hash = 70\<rparr>, cs_duration = 120000000000\<rparr>,
    ChainRecovery \<lparr>cr_best_block = \<lparr>hn_number = 8, hn_hash = 80\<rparr>, cr_duration = 120000000000\<rparr>]"
proof -
  have "watch_chain_stall_and_reorg ex_watch_config ([Elapsed] @ [Recv (Inr (ex_broadcast 7 70 None))]) =
    (\<lparr>ws_timeout_fired = None, ws_maybe_last_best_block = Some \<lparr>hn_number = 7, hn_hash = 70\<rparr>\<rparr>,
     [ChainRecovery \<lparr>cr_best_block = \<lparr>hn_number = 7, hn_hash = 70\<rparr>, cr_duration = 60000000000\<rparr>], None)"
    by (simp add: ex_watch_eval)
  note run = stall_reported_until_recovery [OF this, of "ex_broadcast 8 80 None" 2]
  have "[1..<Suc 2] = [1, 2]" by (simp add: upt_rec)
  with run show ?thesis by (simp add: ex_watch_eval del: upt_Suc)
qed

text \<open>
  C22: The reorg alerts of a run are exactly those that the received broadcasts call for, in
  order: one for every broadcast with reorg data whose retracted chain is at least as long as
  the threshold, and none for a shallower reorg, whatever stalls happen in between.
\<close>

theorem reorg_alerts_exact:
  assumes "list_all watch_input_ok ins" and "watch_chain_stall_and_reorg cfg ins = (s, alerts, None)"
  shows "reorgs alerts = concat (map (reorg_due cfg) ins)"
  using assms run_watch_reorgs unfolding watch_chain_stall_and_reorg_def by blast

theorem reorg_alerts_exact_witness:
  "reorgs (loop_out (watch_chain_stall_and_reorg ex_watch_config
     [Recv (Inr (ex_broadcast 7 70 None)), Elapsed, Recv (Inr (ex_broadcast 9 90 (Some ex_reorg)))])) =
   [\<lparr>co_best_block = \<lparr>hn_number = 9, hn_hash = 90\<rparr>, co_common_block = \<lparr>hn_number = 7, hn_hash = 70\<rparr>,
     co_enacted = [\<lparr>hn_number = 8, hn_hash = 80\<rparr>],
     co_retracted = [\<lparr>hn_number = 8, hn_hash = 81\<rparr>, \<lparr>hn_number = 9, hn_hash = 91\<rparr>]\<rparr>]"
proof -
  let ?ins = "[Recv (Inr (ex_broadcast 7 70 None)), Elapsed, Recv (Inr (ex_broadcast 9 90 (Some ex_reorg)))]"
  obtain s alerts where run: "watch_chain_stall_and_reorg ex_watch_config ?ins = (s, alerts, None)"
    by (simp add: ex_watch_eval)
  have "list_all watch_input_ok ?ins" by (simp add: ex_watch_eval)
  from reorg_alerts_exact [OF this run] run show ?thesis by (simp add: ex_watch_eval)
qed

text \<open>
  As long as every broadcast carries a block, the monitor never panics; it ends only with
  an error of the broadcast channel.
\<close>

theorem watch_ends_only_with_channel:
  assumes "list_all watch_input_ok ins" and "watch_chain_stall_and_reorg cfg ins = (s, alerts, Some f)"
  shows "\<exists>e. f = Err (BroadRecvErr e) \<and> Recv (Inl e) \<in> set ins"
proof -
  from assms(2) obtain i where "i \<in> set ins" and "\<exists>t os t'. watch_step cfg t i = (t', os, Some f)"
    unfolding watch_chain_stall_and_reorg_def by (blast dest: run_loop_fail_step)
  with assms(1) show ?thesis
    by (cases "(cfg, watch_init, i)" rule: watch_step.cases)
      (auto simp: Let_def list_all_iff split: if_splits)
qed

theorem watch_ends_only_with_channel_witness:
  "watch_chain_stall_and_reorg ex_watch_config [Elapsed, Recv (Inl (Lagged 3))] =
     (\<lparr>ws_timeout_fired = Some 60000000000, ws_maybe_last_best_block = None\<rparr>, [], Some (Err (BroadRecvErr (Lagged 3))))"
proof -
  obtain s alerts f where run:
    "watch_chain_stall_and_reorg ex_watch_config [Elapsed, Recv (Inl (Lagged 3))] = (s, alerts, Some f)"
    by (simp add: ex_watch_eval)
  with watch_ends_only_with_channel [OF _ run] show ?thesis by (simp add: ex_watch_eval)
qed

text \<open>
  Timeouts before the first broadcast send nothing, since there is no block to name; the
  first broadcast still sends a recovery alert for the time spent waiting.
\<close>

theorem startup_stall_silent:
  assumes "bx_blocks bx \<noteq> []" and "bx_maybe_reorg_data bx = None"
  shows "loop_out (watch_chain_stall_and_reorg cfg (replicate k Elapsed)) = [] \<and>
    loop_out (watch_chain_stall_and_reorg cfg (replicate k Elapsed @ [Recv (Inr bx)])) =
      (if k = 0 then []
       else [ChainRecovery \<lparr>cr_best_block = block_id (last (bx_blocks bx)),
               cr_duration = stall_length (non_block_import_threshold cfg) k\<rparr>])"
proof -
  have init: "ws_timeout_fired watch_init = stall_clock (non_block_import_threshold cfg) 0"
    and silent: "stall_alert watch_init d = []" for d
    by (simp_all add: watch_init_def stall_clock_def stall_alert_def)
  have "loop_out (watch_chain_stall_and_reorg cfg (replicate k Elapsed)) = []"
    using watch_stall.run_elapsed [OF init, of k]
    by (simp add: watch_chain_stall_and_reorg_def silent del: upt_Suc)
  moreover have "loop_out (watch_chain_stall_and_reorg cfg (replicate k Elapsed @ [Recv (Inr bx)])) =
      (if k = 0 then []
       else [ChainRecovery \<lparr>cr_best_block = block_id (last (bx_blocks bx)),
               cr_duration = stall_length (non_block_import_threshold cfg) k\<rparr>])"
    using run_stall_then_block [of watch_init bx cfg k] assms
    by (simp add: watch_chain_stall_and_reorg_def silent recovery_alert_clock reorg_alert_def
        init stall_clock_simps del: upt_Suc)
  ultimately show ?thesis by blast
qed

theorem startup_stall_silent_witness:
  "loop_out (watch_chain_stall_and_reorg ex_watch_config
     (replicate 3 Elapsed @ [Recv (Inr (ex_broadcast 7 70 None))])) =
   [ChainRecovery \<lparr>cr_best_block = \<lparr>hn_number = 7, hn_hash = 70\<rparr>, cr_duration = 180000000000\<rparr>]"
  using startup_stall_silent [of "ex_broadcast 7 70 None" ex_watch_config 3]
  by (simp add: ex_watch_eval stall_length_def DURATION_MAX_def)

text \<open>
  C13: The chain monitor implements the counting monitor: on every sequence of inputs it sends
  the same alerts and ends in the same way, and its clock reads the length of the waits
  missed in a row.
\<close>

theorem watch_refines_count:
  assumes "run_loop (count_step cfg) \<lparr>ct_missed = 0, ct_best = None\<rparr> ins = (a, alerts, r)"
  shows "watch_chain_stall_and_reorg cfg ins = (clock_of cfg a, alerts, r)"
proof -
  have "clock_of cfg \<lparr>ct_missed = 0, ct_best = None\<rparr> = watch_init"
    by (simp add: clock_of_def watch_init_def stall_clock_def)
  with watch_count.run_refines [OF assms] show ?thesis by (simp add: watch_chain_stall_and_reorg_def)
qed

theorem watch_refines_count_witness:
  "watch_chain_stall_and_reorg ex_watch_config [Recv (Inr (ex_broadcast 7 70 None)), Elapsed] =
    (clock_of ex_watch_config \<lparr>ct_missed = 1, ct_best = Some \<lparr>hn_number = 7, hn_hash = 70\<rparr>\<rparr>,
     [ChainStall \<lparr>cs_last_block = \<lparr>hn_number = 7, hn_hash = 70\<rparr>, cs_duration = 60000000000\<rparr>], None)"
  by (rule watch_refines_count) (simp add: ex_watch_eval stall_length_def)

end
