(* ===== verification/Slots.thy ===== *)
theory Slots
  imports Alerts Cli
begin

text \<open>
  The slot monitor (\<^verbatim>\<open>alerter/src/slots.rs\<close>): it follows the chain of proof-of-time slots
  received from the network, and alerts on a stalled and a recovered timekeeper, on a slow slot
  and on a slow average over the window of kept slots.

  The window is a \<open>BoundedVec\<close> of at most 600 entries; its \<open>force_push\<close> belongs to another
  crate and is the argument \<open>push\<close>.  The program relies on \<open>force_push_ok\<close>: a push below the bound
  appends, and a push at the bound keeps the length, puts the new entry last and adds nothing else.
  Which old entry is given up at the bound is left open.
\<close>

record slot_details =
  sd_proof :: gossip_proof
  sd_duration :: duration

type_synonym slot_push = "slot_details list \<Rightarrow> slot_details \<Rightarrow> slot_details list"

record monitor_state =
  ms_timeout_fired :: "duration option"
  ms_last_instant :: instant
  ms_slots :: "slot_details list"

definition SLOT_TIMEOUT :: duration where
  "SLOT_TIMEOUT = duration_from_secs 30"

definition SLOTS_BOUND :: nat where
  "SLOTS_BOUND = 600"

definition monitor_init :: "instant \<Rightarrow> monitor_state" where
  "monitor_init now = \<lparr>ms_timeout_fired = None, ms_last_instant = now, ms_slots = []\<rparr>"

text \<open>The fold over the window: \<open>Duration + Duration\<close> panics on overflow, \<open>None\<close> here.\<close>

fun sum_durations :: "duration \<Rightarrow> slot_details list \<Rightarrow> duration option" where
  "sum_durations acc [] = Some acc"
| "sum_durations acc (x # xs) =
     (case duration_checked_add acc (sd_duration x) of None \<Rightarrow> None | Some acc' \<Rightarrow> sum_durations acc' xs)"

definition avg_slot_time :: "slot_details list \<Rightarrow> duration result" where
  "avg_slot_time slots =
     bind_res (expect ''overflow when adding durations'' (sum_durations 0 slots)) (\<lambda>total.
     expect ''divide by zero error when dividing duration by scalar'' (duration_div total (of_nat (length slots))))"

definition timekeeper_recovery_alert :: "duration option \<Rightarrow> slot \<Rightarrow> alert list" where
  "timekeeper_recovery_alert last_timeout slot =
     (case last_timeout of None \<Rightarrow> []
      | Some timeout \<Rightarrow> [TimekeeperRecovery \<lparr>tr_slot = slot, tr_duration = timeout\<rparr>])"

definition slow_slot_alert :: "slots_config \<Rightarrow> slot \<Rightarrow> slot \<Rightarrow> duration \<Rightarrow> alert list" where
  "slow_slot_alert cfg previous slot d =
     (if d > per_slot_threshold cfg
      then [SlowSlot \<lparr>ss_slot = slot, ss_previous_slot = previous, ss_slot_time = d,
                      ss_threshold = per_slot_threshold cfg\<rparr>]
      else [])"

definition avg_slow_alert :: "slots_config \<Rightarrow> slot \<Rightarrow> slot_details list \<Rightarrow> duration \<Rightarrow> alert list" where
  "avg_slow_alert cfg slot slots avg =
     (if length slots \<ge> SLOTS_BOUND \<and> avg > avg_slot_threshold cfg
      then [AvgSlowSlots \<lparr>as_slot = slot, as_slot_count = length slots, as_avg_slot_time = avg,
                          as_threshold = avg_slot_threshold cfg\<rparr>]
      else [])"

definition timekeeper_stall_alert :: "monitor_state \<Rightarrow> duration \<Rightarrow> alert list" where
  "timekeeper_stall_alert s d =
     (if ms_slots s = [] then []
      else [TimekeeperStall \<lparr>ts_last_slot = gp_slot (sd_proof (last (ms_slots s))), ts_duration = d\<rparr>])"

text \<open>The rest of the round once a slot extends the chain of slots.\<close>

definition extend_slots ::
  "slot_push \<Rightarrow> slots_config \<Rightarrow> monitor_state \<Rightarrow> pot_info \<Rightarrow> (monitor_state, alert, error failure) step_result" where
  "extend_slots push cfg s p =
     (let d = duration_since (pi_at p) (ms_last_instant s);
          slot = gp_slot (pi_proof p);
          previous = gp_slot (sd_proof (last (ms_slots s)));
          slots = push (ms_slots s) \<lparr>sd_proof = pi_proof p, sd_duration = d\<rparr>;
          s' = \<lparr>ms_timeout_fired = None, ms_last_instant = pi_at p, ms_slots = slots\<rparr>;
          alerts = timekeeper_recovery_alert (ms_timeout_fired s) slot @ slow_slot_alert cfg previous slot d
      in (case avg_slot_time slots of
            Inl f \<Rightarrow> (s', alerts, Some f)
          | Inr avg \<Rightarrow> (s', alerts @ avg_slow_alert cfg slot slots avg, None)))"

fun monitor_step ::
  "slot_push \<Rightarrow> slots_config \<Rightarrow> monitor_state \<Rightarrow> pot_info timed_recv \<Rightarrow>
   (monitor_state, alert, error failure) step_result" where
  "monitor_step push cfg s (Recv (Inl err)) = (s, [], Some (Err (error_from (ForRecv err))))"
| "monitor_step push cfg s (Recv (Inr p)) =
     (if ms_slots s = [] then
        (s\<lparr>ms_last_instant := pi_at p,
           ms_slots := push [] \<lparr>sd_proof = pi_proof p, sd_duration = duration_since (pi_at p) (ms_last_instant s)\<rparr>\<rparr>,
         [], None)
      else
        (case checked_add (gp_slot (sd_proof (last (ms_slots s)))) 1 of
           None \<Rightarrow> (s, [], Some (Panic ''attempt to add with overflow''))
         | Some next \<Rightarrow> if gp_slot (pi_proof p) \<noteq> next then (s, [], None) else extend_slots push cfg s p))"
| "monitor_step push cfg s Elapsed =
     (let d = next_stall SLOT_TIMEOUT (ms_timeout_fired s) in
      (s\<lparr>ms_timeout_fired := Some d\<rparr>, timekeeper_stall_alert s d, None))"

definition monitor_slots ::
  "slot_push \<Rightarrow> slots_config \<Rightarrow> instant \<Rightarrow> pot_info timed_recv list \<Rightarrow>
   (monitor_state, alert, error failure) step_result" where
  "monitor_slots push cfg start ins = run_loop (monitor_step push cfg) (monitor_init start) ins"

section \<open>Contracts\<close>

definition force_push_ok :: "slot_push \<Rightarrow> bool" where
  "force_push_ok push \<longleftrightarrow>
     (\<forall>xs x. length xs < SLOTS_BOUND \<longrightarrow> push xs x = xs @ [x]) \<and>
     (\<forall>xs x. length xs = SLOTS_BOUND \<longrightarrow>
        length (push xs x) = SLOTS_BOUND \<and> last (push xs x) = x \<and> set (push xs x) \<subseteq> insert x (set xs))"

text \<open>The slot the chain of slots has reached.\<close>

definition last_slot :: "monitor_state \<Rightarrow> slot option" where
  "last_slot s = (if ms_slots s = [] then None else Some (gp_slot (sd_proof (last (ms_slots s)))))"

text \<open>
  Inputs on which no arithmetic overflows: clock readings below a 600th of the longest
  duration, and slots below the largest number.
\<close>

fun slot_input_ok :: "pot_info timed_recv \<Rightarrow> bool" where
  "slot_input_ok (Recv (Inr p)) \<longleftrightarrow> gp_slot (pi_proof p) \<noteq> - 1 \<and> pi_at p \<le> DURATION_MAX div SLOTS_BOUND"
| "slot_input_ok _ \<longleftrightarrow> True"

definition window_ok :: "slot_push \<Rightarrow> monitor_state \<Rightarrow> bool" where
  "window_ok push s \<longleftrightarrow> force_push_ok push \<and> length (ms_slots s) \<le> SLOTS_BOUND \<and>
     (\<forall>d \<in> set (ms_slots s). sd_duration d \<le> DURATION_MAX div SLOTS_BOUND) \<and> last_slot s \<noteq> Some (- 1) \<and>
     pred_option (\<lambda>d. SLOT_TIMEOUT \<le> d) (ms_timeout_fired s)"

text \<open>
  Without a condition on the inputs: the window is bounded and a running stall clock shows at
  least one wait.  With clock readings in range, also the kept durations are.
\<close>

definition monitor_ok :: "slot_push \<Rightarrow> monitor_state \<Rightarrow> bool" where
  "monitor_ok push s \<longleftrightarrow> force_push_ok push \<and> length (ms_slots s) \<le> SLOTS_BOUND \<and>
     pred_option (\<lambda>d. SLOT_TIMEOUT \<le> d) (ms_timeout_fired s)"

definition clocked :: "pot_info \<Rightarrow> bool" where
  "clocked p \<longleftrightarrow> pi_at p \<le> DURATION_MAX div SLOTS_BOUND"

fun clock_ok :: "pot_info timed_recv \<Rightarrow> bool" where
  "clock_ok (Recv (Inr p)) \<longleftrightarrow> clocked p"
| "clock_ok Elapsed \<longleftrightarrow> True"
| "clock_ok (Recv (Inl e)) \<longleftrightarrow> True"

definition window_clocked :: "slot_push \<Rightarrow> monitor_state \<Rightarrow> bool" where
  "window_clocked push s \<longleftrightarrow> monitor_ok push s \<and>
     (\<forall>d \<in> set (ms_slots s). sd_duration d \<le> DURATION_MAX div SLOTS_BOUND)"

lemma window_ok_iff: "window_ok push s \<longleftrightarrow> window_clocked push s \<and> last_slot s \<noteq> Some (- 1)"
  by (auto simp: window_ok_def window_clocked_def monitor_ok_def)

lemma slot_input_ok_iff: "slot_input_ok i \<longleftrightarrow> clock_ok i \<and> (\<forall>p. i = Recv (Inr p) \<longrightarrow> gp_slot (pi_proof p) \<noteq> - 1)"
  by (cases i rule: clock_ok.cases) (auto simp: clocked_def)

text \<open>An average alert is about a full window and a breached threshold.\<close>

fun slot_alert_ok :: "slots_config \<Rightarrow> alert \<Rightarrow> bool" where
  "slot_alert_ok cfg (AvgSlowSlots a) \<longleftrightarrow>
     as_slot_count a = SLOTS_BOUND \<and> as_threshold a = avg_slot_threshold cfg \<and>
     avg_slot_threshold cfg < as_avg_slot_time a"
| "slot_alert_ok cfg (SlowSlot a) \<longleftrightarrow>
     ss_slot a = ss_previous_slot a + 1 \<and> ss_threshold a = per_slot_threshold cfg \<and>
     per_slot_threshold cfg < ss_slot_time a"
| "slot_alert_ok cfg (TimekeeperStall a) \<longleftrightarrow> SLOT_TIMEOUT \<le> ts_duration a"
| "slot_alert_ok cfg (TimekeeperRecovery a) \<longleftrightarrow> SLOT_TIMEOUT \<le> tr_duration a"
| "slot_alert_ok cfg _ \<longleftrightarrow> False"

section \<open>Lemmas\<close>

lemma checked_add_one: "checked_add (n::u64) 1 = (if n = - 1 then None else Some (n + 1))"
proof -
  have "unat n < 2 ^ 64 - 1 \<longleftrightarrow> n \<noteq> - 1"
  proof -
    have "unat (- 1 :: u64) = 2 ^ 64 - 1" by (simp add: unsigned_minus_1_eq_mask mask_eq_exp_minus_1)
    moreover have "unat n < 2 ^ 64" using unsigned_less [of n] by simp
    ultimately show ?thesis unfolding word_unat_eq_iff by arith
  qed
  then show ?thesis by (auto simp: checked_add_def)
qed

lemma push_facts:
  assumes "force_push_ok push" and "length xs \<le> SLOTS_BOUND"
  shows "push xs x \<noteq> []" and "last (push xs x) = x" and "length (push xs x) \<le> SLOTS_BOUND"
    and "set (push xs x) \<subseteq> insert x (set xs)"
proof -
  consider "length xs < SLOTS_BOUND" | "length xs = SLOTS_BOUND" using assms(2) by linarith
  then have "push xs x \<noteq> [] \<and> last (push xs x) = x \<and> length (push xs x) \<le> SLOTS_BOUND \<and>
    set (push xs x) \<subseteq> insert x (set xs)"
  proof cases
    case 2
    with assms(1) have "length (push xs x) = SLOTS_BOUND" by (simp add: force_push_ok_def)
    then have "push xs x \<noteq> []" by (auto simp: SLOTS_BOUND_def)
    with 2 assms(1) show ?thesis by (simp add: force_push_ok_def)
  qed (use assms(1) in \<open>auto simp: force_push_ok_def\<close>)
  then show "push xs x \<noteq> []" "last (push xs x) = x" "length (push xs x) \<le> SLOTS_BOUND"
    "set (push xs x) \<subseteq> insert x (set xs)" by blast+
qed

lemma sum_durations_Some:
  "acc + sum_list (map sd_duration xs) \<le> DURATION_MAX \<Longrightarrow>
   sum_durations acc xs = Some (acc + sum_list (map sd_duration xs))"
  by (induction xs arbitrary: acc) (auto simp: duration_checked_add_def)

lemma sum_durations_bound:
  assumes "\<forall>d \<in> set xs. sd_duration d \<le> B" and "length xs \<le> n"
  shows "sum_list (map sd_duration xs) \<le> n * B"
proof -
  have "sum_list (map sd_duration xs) \<le> length xs * B"
    using assms(1) by (induction xs) auto
  with assms(2) show ?thesis by (meson le_trans mult_le_mono1)
qed

lemma avg_slot_time_eq:
  assumes "xs \<noteq> []" and "length xs \<le> SLOTS_BOUND" and "sum_list (map sd_duration xs) \<le> DURATION_MAX"
  shows "avg_slot_time xs = Inr (sum_list (map sd_duration xs) div length xs)"
proof -
  have "unat (of_nat (length xs) :: u32) = length xs"
    using assms(2) by (simp add: unat_of_nat SLOTS_BOUND_def take_bit_nat_eq_self)
  moreover from this assms(1) have "(of_nat (length xs) :: u32) \<noteq> 0" by (metis length_0_conv unsigned_0)
  ultimately show ?thesis
    using assms(3) by (simp add: avg_slot_time_def sum_durations_Some duration_div_def expect_def)
qed

lemma last_slot_Some: "last_slot s = Some n \<longleftrightarrow> ms_slots s \<noteq> [] \<and> gp_slot (sd_proof (last (ms_slots s))) = n"
  by (auto simp: last_slot_def)

lemma last_slot_None: "last_slot s = None \<longleftrightarrow> ms_slots s = []"
  by (auto simp: last_slot_def)

text \<open>One round on a received slot, in terms of the slot reached so far.\<close>

lemma monitor_step_first:
  "last_slot s = None \<Longrightarrow> monitor_step push cfg s (Recv (Inr p)) =
     (s\<lparr>ms_last_instant := pi_at p,
        ms_slots := push [] \<lparr>sd_proof = pi_proof p, sd_duration = duration_since (pi_at p) (ms_last_instant s)\<rparr>\<rparr>, [], None)"
  by (simp add: last_slot_None)

lemma monitor_step_stale:
  "last_slot s = Some n \<Longrightarrow> n \<noteq> - 1 \<Longrightarrow> gp_slot (pi_proof p) \<noteq> n + 1 \<Longrightarrow>
   monitor_step push cfg s (Recv (Inr p)) = (s, [], None)"
  by (auto simp: last_slot_Some checked_add_one)

lemma monitor_step_next:
  "last_slot s = Some n \<Longrightarrow> n \<noteq> - 1 \<Longrightarrow> gp_slot (pi_proof p) = n + 1 \<Longrightarrow>
   monitor_step push cfg s (Recv (Inr p)) = extend_slots push cfg s p"
  by (auto simp: last_slot_Some checked_add_one)

text \<open>What an extension leaves behind, whether or not the sum overflows.\<close>

lemma extend_slots_state:
  assumes "force_push_ok push" and "length (ms_slots s) \<le> SLOTS_BOUND" and "extend_slots push cfg s p = (s', os, r)"
  shows "last_slot s' = Some (gp_slot (pi_proof p))" and "ms_last_instant s' = pi_at p"
    and "ms_timeout_fired s' = None" and "length (ms_slots s') \<le> SLOTS_BOUND"
    and "slow_slots os = slow_slots (slow_slot_alert cfg (gp_slot (sd_proof (last (ms_slots s)))) (gp_slot (pi_proof p))
           (pi_at p - ms_last_instant s))"
  using assms push_facts [OF assms(1,2)]
  by (auto simp: extend_slots_def Let_def last_slot_Some timekeeper_recovery_alert_def duration_since_def
      avg_slow_alert_def split: sum.splits option.splits if_splits)

lemma extend_slots_clocked:
  assumes "window_clocked push s" and "clocked p"
  defines "xs \<equiv> push (ms_slots s) \<lparr>sd_proof = pi_proof p, sd_duration = pi_at p - ms_last_instant s\<rparr>"
  shows "extend_slots push cfg s p =
      (\<lparr>ms_timeout_fired = None, ms_last_instant = pi_at p, ms_slots = xs\<rparr>,
       timekeeper_recovery_alert (ms_timeout_fired s) (gp_slot (pi_proof p)) @
       slow_slot_alert cfg (gp_slot (sd_proof (last (ms_slots s)))) (gp_slot (pi_proof p)) (pi_at p - ms_last_instant s) @
       avg_slow_alert cfg (gp_slot (pi_proof p)) xs (sum_list (map sd_duration xs) div length xs), None)"
    and "\<forall>d \<in> set xs. sd_duration d \<le> DURATION_MAX div SLOTS_BOUND" and "xs \<noteq> []" and "length xs \<le> SLOTS_BOUND"
    and "last xs = \<lparr>sd_proof = pi_proof p, sd_duration = pi_at p - ms_last_instant s\<rparr>"
proof -
  from assms(1) have push: "force_push_ok push" and len: "length (ms_slots s) \<le> SLOTS_BOUND"
    and ds: "\<forall>d \<in> set (ms_slots s). sd_duration d \<le> DURATION_MAX div SLOTS_BOUND"
    by (simp_all add: window_clocked_def monitor_ok_def)
  note xs = push_facts [OF push len, of "\<lparr>sd_proof = pi_proof p, sd_duration = pi_at p - ms_last_instant s\<rparr>",
      folded xs_def]
  show bound: "\<forall>d \<in> set xs. sd_duration d \<le> DURATION_MAX div SLOTS_BOUND"
    using xs(4) ds assms(2) by (auto simp: clocked_def dest!: subsetD)
  show "xs \<noteq> []" "length xs \<le> SLOTS_BOUND"
    "last xs = \<lparr>sd_proof = pi_proof p, sd_duration = pi_at p - ms_last_instant s\<rparr>" by (fact xs)+
  have "sum_list (map sd_duration xs) \<le> SLOTS_BOUND * (DURATION_MAX div SLOTS_BOUND)"
    using sum_durations_bound [OF bound xs(3)] .
  then have "sum_list (map sd_duration xs) \<le> DURATION_MAX"
    by (meson le_trans times_div_less_eq_dividend)
  with xs show "extend_slots push cfg s p =
      (\<lparr>ms_timeout_fired = None, ms_last_instant = pi_at p, ms_slots = xs\<rparr>,
       timekeeper_recovery_alert (ms_timeout_fired s) (gp_slot (pi_proof p)) @
       slow_slot_alert cfg (gp_slot (sd_proof (last (ms_slots s)))) (gp_slot (pi_proof p)) (pi_at p - ms_last_instant s) @
       avg_slow_alert cfg (gp_slot (pi_proof p)) xs (sum_list (map sd_duration xs) div length xs), None)"
    by (simp add: extend_slots_def duration_since_def avg_slot_time_eq Let_def flip: xs_def)
qed

lemma extend_slots_ok:
  assumes "window_ok push s" and "slot_input_ok (Recv (Inr p))"
  defines "xs \<equiv> push (ms_slots s) \<lparr>sd_proof = pi_proof p, sd_duration = pi_at p - ms_last_instant s\<rparr>"
  shows "extend_slots push cfg s p =
      (\<lparr>ms_timeout_fired = None, ms_last_instant = pi_at p, ms_slots = xs\<rparr>,
       timekeeper_recovery_alert (ms_timeout_fired s) (gp_slot (pi_proof p)) @
       slow_slot_alert cfg (gp_slot (sd_proof (last (ms_slots s)))) (gp_slot (pi_proof p)) (pi_at p - ms_last_instant s) @
       avg_slow_alert cfg (gp_slot (pi_proof p)) xs (sum_list (map sd_duration xs) div length xs), None)"
  using extend_slots_clocked(1) [of push s p] assms(1,2) by (simp add: window_ok_iff slot_input_ok_iff xs_def)

lemma next_stall_ge: "pred_option (\<lambda>d. SLOT_TIMEOUT \<le> d) fired \<Longrightarrow> SLOT_TIMEOUT \<le> next_stall SLOT_TIMEOUT fired"
  by (cases fired) (auto simp: next_stall_def duration_saturating_add_def SLOT_TIMEOUT_def DURATION_MAX_def
      duration_from_secs_def NANOS_PER_SEC_def)

lemma window_ok_init: "force_push_ok push \<Longrightarrow> window_ok push (monitor_init start)"
  by (simp add: window_ok_def monitor_init_def last_slot_def)

text \<open>The cases of a round on a received slot; the second is the overflow of the slot's successor.\<close>

lemma recv_cases:
  obtains (first) "last_slot s = None"
    | (overflow) "last_slot s = Some (- 1)"
    | (stale) n where "last_slot s = Some n" "n \<noteq> - 1" "gp_slot (pi_proof p) \<noteq> n + 1"
    | (extends) n where "last_slot s = Some n" "n \<noteq> - 1" "gp_slot (pi_proof p) = n + 1"
  by (cases "last_slot s") auto

lemma monitor_step_overflow:
  "last_slot s = Some (- 1) \<Longrightarrow> monitor_step push cfg s (Recv (Inr p)) = (s, [], Some (Panic ''attempt to add with overflow''))"
  by (auto simp: last_slot_Some checked_add_one)

lemma monitor_step_start:
  assumes "monitor_ok push s" and "last_slot s = None"
  shows "monitor_step push cfg s (Recv (Inr p)) = (s\<lparr>ms_last_instant := pi_at p,
    ms_slots := [\<lparr>sd_proof = pi_proof p, sd_duration = pi_at p - ms_last_instant s\<rparr>]\<rparr>, [], None)"
  using assms by (simp add: monitor_step_first monitor_ok_def force_push_ok_def SLOTS_BOUND_def duration_since_def
      del: monitor_step.simps)

lemma extend_slots_alerts:
  assumes "monitor_ok push s" and "gp_slot (pi_proof p) = gp_slot (sd_proof (last (ms_slots s))) + 1"
    and "extend_slots push cfg s p = (s', os, r)"
  shows "monitor_ok push s' \<and> list_all (slot_alert_ok cfg) os"
proof -
  have push: "force_push_ok push" "length (ms_slots s) \<le> SLOTS_BOUND" using assms(1) by (simp_all add: monitor_ok_def)
  note xs = push_facts(3) [OF push]
  show ?thesis
    using assms xs [of "\<lparr>sd_proof = pi_proof p, sd_duration = pi_at p - ms_last_instant s\<rparr>"]
    by (auto simp: extend_slots_def Let_def monitor_ok_def timekeeper_recovery_alert_def slow_slot_alert_def
        avg_slow_alert_def duration_since_def split: sum.splits option.splits)
qed

text \<open>Any input keeps the bounds, and every alert is justified.\<close>

lemma monitor_step_any:
  assumes "monitor_ok push s" and "monitor_step push cfg s i = (s', os, r)"
  shows "monitor_ok push s' \<and> list_all (slot_alert_ok cfg) os"
proof (cases i rule: clock_ok.cases)
  case (1 p)
  show ?thesis
  proof (cases rule: recv_cases [where s = s and p = p])
    case first
    with assms 1 show ?thesis by (auto simp: monitor_step_start monitor_ok_def SLOTS_BOUND_def simp del: monitor_step.simps)
  next
    case overflow
    with assms 1 show ?thesis by (auto simp: monitor_step_overflow simp del: monitor_step.simps)
  next
    case stale
    with assms 1 show ?thesis by (auto simp: monitor_step_stale simp del: monitor_step.simps)
  next
    case (extends n)
    with assms 1 have "extend_slots push cfg s p = (s', os, r)" by (simp add: monitor_step_next del: monitor_step.simps)
    with extend_slots_alerts [OF assms(1)] extends show ?thesis by (simp add: last_slot_Some)
  qed
next
  case 2
  with assms next_stall_ge show ?thesis by (auto simp: monitor_ok_def Let_def timekeeper_stall_alert_def)
qed (use assms in auto)

text \<open>With clock readings in range, a round ends the monitor only on a channel error or that overflow.\<close>

lemma monitor_step_clocked:
  assumes "window_clocked push s" and "clock_ok i" and "monitor_step push cfg s i = (s', os, r)"
  shows "window_clocked push s' \<and> (\<forall>f. r = Some f \<longrightarrow>
    (\<exists>e. i = Recv (Inl e) \<and> f = Err (BroadRecvErr e)) \<or>
    (f = Panic ''attempt to add with overflow'' \<and> last_slot s' = Some (- 1)))"
proof (cases i rule: clock_ok.cases)
  case (1 p)
  have p: "clocked p" and ok: "monitor_ok push s" using assms 1 by (simp_all add: window_clocked_def)
  show ?thesis
  proof (cases rule: recv_cases [where s = s and p = p])
    case first
    with assms 1 ok p show ?thesis
      by (auto simp: monitor_step_start window_clocked_def monitor_ok_def clocked_def SLOTS_BOUND_def simp del: monitor_step.simps)
  next
    case overflow
    with assms 1 show ?thesis by (auto simp: monitor_step_overflow simp del: monitor_step.simps)
  next
    case stale
    with assms 1 show ?thesis by (auto simp: monitor_step_stale simp del: monitor_step.simps)
  next
    case (extends n)
    with assms(3) 1 have "extend_slots push cfg s p = (s', os, r)" by (simp add: monitor_step_next del: monitor_step.simps)
    with extend_slots_clocked(1) [OF assms(1) p, of cfg] extend_slots_clocked(2) [OF assms(1) p] monitor_step_any [OF ok assms(3)] show ?thesis
      by (auto simp: window_clocked_def)
  qed
next
  case 2
  with assms monitor_step_any [of push s cfg i s' os r] show ?thesis by (auto simp: window_clocked_def Let_def)
qed (use assms in auto)

lemma monitor_step_last:
  assumes "monitor_ok push s" and "monitor_step push cfg s i = (s', os, r)"
  shows "last_slot s' = last_slot s \<or> (\<exists>p. i = Recv (Inr p) \<and> last_slot s' = Some (gp_slot (pi_proof p)))"
proof (cases i rule: clock_ok.cases)
  case (1 p)
  have push: "force_push_ok push" "length (ms_slots s) \<le> SLOTS_BOUND" using assms(1) by (simp_all add: monitor_ok_def)
  show ?thesis
  proof (cases rule: recv_cases [where s = s and p = p])
    case first
    with assms 1 show ?thesis by (auto simp: monitor_step_start last_slot_Some simp del: monitor_step.simps)
  next
    case overflow
    with assms 1 show ?thesis by (auto simp: monitor_step_overflow simp del: monitor_step.simps)
  next
    case stale
    with assms 1 show ?thesis by (auto simp: monitor_step_stale simp del: monitor_step.simps)
  next
    case (extends n)
    with assms(2) 1 have "extend_slots push cfg s p = (s', os, r)" by (simp add: monitor_step_next del: monitor_step.simps)
    from extend_slots_state(1) [OF push this] 1 show ?thesis by simp
  qed
next
  case 2
  with assms show ?thesis by (auto simp: Let_def last_slot_def)
qed (use assms in auto)

lemma monitor_ok_init: "force_push_ok push \<Longrightarrow> monitor_ok push (monitor_init start)"
  by (simp add: monitor_ok_def monitor_init_def)

lemma window_clocked_init: "force_push_ok push \<Longrightarrow> window_clocked push (monitor_init start)"
  by (simp add: window_clocked_def monitor_ok_def monitor_init_def)

lemma monitor_step_contract:
  assumes "window_ok push s" and "slot_input_ok i" and "monitor_step push cfg s i = (s', os, r)"
  shows "window_ok push s' \<and> list_all (slot_alert_ok cfg) os \<and> (\<forall>f. r = Some f \<longrightarrow> (\<exists>e. f = Err (BroadRecvErr e)))"
proof -
  have s: "window_clocked push s" "last_slot s \<noteq> Some (- 1)" "monitor_ok push s" and i: "clock_ok i"
    using assms(1,2) by (auto simp: window_ok_iff window_clocked_def slot_input_ok_iff)
  have "last_slot s' \<noteq> Some (- 1)"
    using monitor_step_last [OF s(3) assms(3)] s(2) assms(2) by (auto simp: slot_input_ok_iff)
  with monitor_step_clocked [OF s(1) i assms(3)] monitor_step_any [OF s(3) assms(3)] show ?thesis
    by (auto simp: window_ok_iff)
qed

interpretation slots_any: loop_contract "monitor_step push cfg" "monitor_ok push" "\<lambda>_. True" "slot_alert_ok cfg" "\<lambda>_. True"
  for push :: slot_push and cfg :: slots_config
  by unfold_locales (use monitor_step_any in \<open>(fastforce simp: list_all_iff)+\<close>)

interpretation slots_clock: loop_contract "monitor_step push cfg" "window_clocked push" clock_ok "\<lambda>_. True"
  "\<lambda>f. (\<exists>e. f = Err (BroadRecvErr e)) \<or> f = Panic ''attempt to add with overflow''"
  for push :: slot_push and cfg :: slots_config
  by unfold_locales (use monitor_step_clocked in fastforce)+

interpretation slots: loop_contract "monitor_step push cfg" "window_ok push" slot_input_ok "slot_alert_ok cfg"
  "\<lambda>f. \<exists>e. f = Err (BroadRecvErr e)" for push :: slot_push and cfg :: slots_config
  by unfold_locales (use monitor_step_contract in \<open>(fastforce simp: list_all_iff)+\<close>)

interpretation slots_stall: stalling_task "monitor_step push cfg" ms_timeout_fired SLOT_TIMEOUT
  timekeeper_stall_alert "\<lambda>x s. s\<lparr>ms_timeout_fired := x\<rparr>" for push :: slot_push and cfg :: slots_config
  by unfold_locales (simp_all add: Let_def timekeeper_stall_alert_def)

text \<open>A run that ends does so on a channel error it received, or stuck at the largest slot.\<close>

lemma run_monitor_ends:
  "window_clocked push s \<Longrightarrow> list_all clock_ok ins \<Longrightarrow> run_loop (monitor_step push cfg) s ins = (s', os, Some f) \<Longrightarrow>
   (\<exists>e. Recv (Inl e) \<in> set ins \<and> f = Err (BroadRecvErr e)) \<or>
   (f = Panic ''attempt to add with overflow'' \<and> last_slot s' = Some (- 1))"
proof (induction ins arbitrary: s os)
  case (Cons i ins)
  obtain t o1 r where b: "monitor_step push cfg s i = (t, o1, r)" by (metis prod_cases3)
  from Cons.prems(2) have "clock_ok i" "list_all clock_ok ins" by simp_all
  note step = monitor_step_clocked [OF Cons.prems(1) this(1) b]
  show ?case
  proof (cases r)
    case None
    with b Cons.prems(3) obtain o2 where "run_loop (monitor_step push cfg) t ins = (s', o2, Some f)"
      by (auto split: prod.splits)
    with Cons.IH step \<open>list_all clock_ok ins\<close> show ?thesis by fastforce
  next
    case (Some g)
    with b Cons.prems(3) have "g = f" "t = s'" by auto
    with step Some show ?thesis by auto
  qed
qed simp

section \<open>The chain of accepted slots\<close>

text \<open>Whether a received slot is taken, the inputs that remain when the others are dropped, and the
  slots among them.\<close>

fun takes :: "slot option \<Rightarrow> pot_info \<Rightarrow> bool" where
  "takes None p \<longleftrightarrow> True"
| "takes (Some n) p \<longleftrightarrow> gp_slot (pi_proof p) = n + 1"

fun accepted :: "slot option \<Rightarrow> pot_info timed_recv list \<Rightarrow> pot_info timed_recv list" where
  "accepted l [] = []"
| "accepted l (Recv (Inr p) # ins) =
     (if takes l p then Recv (Inr p) # accepted (Some (gp_slot (pi_proof p))) ins else accepted l ins)"
| "accepted l (i # ins) = i # accepted l ins"

fun received_slots :: "pot_info timed_recv list \<Rightarrow> slot list" where
  "received_slots [] = []"
| "received_slots (Recv (Inr p) # ins) = gp_slot (pi_proof p) # received_slots ins"
| "received_slots (i # ins) = received_slots ins"

fun consecutive :: "slot list \<Rightarrow> bool" where
  "consecutive (x # y # zs) \<longleftrightarrow> y = x + 1 \<and> consecutive (y # zs)"
| "consecutive _ \<longleftrightarrow> True"

text \<open>The slow slots in a stream of inputs, after a slot \<open>n\<close> received at \<open>t\<close>, if any.\<close>

fun slow_due :: "slots_config \<Rightarrow> (slot \<times> instant) option \<Rightarrow> pot_info timed_recv list \<Rightarrow> slow_slot list" where
  "slow_due cfg l [] = []"
| "slow_due cfg None (Recv (Inr p) # ins) = slow_due cfg (Some (gp_slot (pi_proof p), pi_at p)) ins"
| "slow_due cfg (Some (n, t)) (Recv (Inr p) # ins) =
     (if gp_slot (pi_proof p) = n + 1 then
        (if pi_at p - t > per_slot_threshold cfg
         then [\<lparr>ss_slot = n + 1, ss_previous_slot = n, ss_slot_time = pi_at p - t, ss_threshold = per_slot_threshold cfg\<rparr>]
         else []) @ slow_due cfg (Some (n + 1, pi_at p)) ins
      else slow_due cfg (Some (n, t)) ins)"
| "slow_due cfg l (i # ins) = slow_due cfg l ins"

text \<open>The slot and time a state stands for.\<close>

definition reached :: "monitor_state \<Rightarrow> (slot \<times> instant) option" where
  "reached s = map_option (\<lambda>n. (n, ms_last_instant s)) (last_slot s)"

lemma window_ok_push: "window_ok push s \<Longrightarrow> force_push_ok push \<and> length (ms_slots s) \<le> SLOTS_BOUND"
  by (simp add: window_ok_def)

lemma window_ok_last: "window_ok push s \<Longrightarrow> last_slot s = Some n \<Longrightarrow> n \<noteq> - 1"
  by (auto simp: window_ok_def)

lemma window_ok_monitor: "window_ok push s \<Longrightarrow> monitor_ok push s"
  by (simp add: window_ok_iff window_clocked_def)

lemma first_reached:
  assumes "monitor_ok push s" and "last_slot s = None" and "monitor_step push cfg s (Recv (Inr p)) = (s', os, r)"
  shows "reached s' = Some (gp_slot (pi_proof p), pi_at p)" and "os = []" and "r = None"
  using assms by (auto simp: monitor_step_start reached_def last_slot_def simp del: monitor_step.simps)

lemma next_reached:
  assumes "monitor_ok push s" and "last_slot s = Some n" and "n \<noteq> - 1" and "gp_slot (pi_proof p) = n + 1"
    and "monitor_step push cfg s (Recv (Inr p)) = (s', os, r)"
  shows "reached s' = Some (n + 1, pi_at p)"
    and "slow_slots os = slow_slots (slow_slot_alert cfg n (n + 1) (pi_at p - ms_last_instant s))"
proof -
  from assms have e: "extend_slots push cfg s p = (s', os, r)" by (metis monitor_step_next)
  have "force_push_ok push" "length (ms_slots s) \<le> SLOTS_BOUND" using assms(1) by (simp_all add: monitor_ok_def)
  from extend_slots_state [OF this e] assms(2,4)
  show "reached s' = Some (n + 1, pi_at p)"
    "slow_slots os = slow_slots (slow_slot_alert cfg n (n + 1) (pi_at p - ms_last_instant s))"
    by (auto simp: reached_def last_slot_Some)
qed

lemma stale_step:
  assumes "window_ok push s" and "\<not> takes (last_slot s) p"
  shows "monitor_step push cfg s (Recv (Inr p)) = (s, [], None)"
  using assms monitor_step_stale window_ok_last by (cases "last_slot s") (auto simp del: monitor_step.simps)

lemma reached_last: "reached s = Some (n, t) \<Longrightarrow> last_slot s = Some n \<and> ms_last_instant s = t"
  by (auto simp: reached_def)

lemma taken_last:
  assumes "window_ok push s" and "takes (last_slot s) p" and "monitor_step push cfg s (Recv (Inr p)) = (s', os, r)"
  shows "last_slot s' = Some (gp_slot (pi_proof p))"
proof (cases "last_slot s")
  case None
  with assms window_ok_monitor first_reached(1) reached_last show ?thesis by blast
next
  case (Some n)
  with assms(2) have slot: "gp_slot (pi_proof p) = n + 1" by simp
  from next_reached(1) [OF window_ok_monitor [OF assms(1)] Some window_ok_last [OF assms(1) Some] slot assms(3)] slot
  show ?thesis by (auto dest: reached_last)
qed

lemma elapsed_step: "\<exists>s' os. monitor_step push cfg s Elapsed = (s', os, None) \<and> last_slot s' = last_slot s \<and>
    reached s' = reached s \<and> slow_slots os = []"
  by (simp add: Let_def last_slot_def reached_def timekeeper_stall_alert_def)

lemma run_accepted:
  "window_ok push s \<Longrightarrow> list_all slot_input_ok ins \<Longrightarrow>
   run_loop (monitor_step push cfg) s ins = run_loop (monitor_step push cfg) s (accepted (last_slot s) ins)"
proof (induction ins arbitrary: s)
  case (Cons i ins)
  from Cons.prems have i: "slot_input_ok i" and ins: "list_all slot_input_ok ins" by simp_all
  obtain s' os r where b: "monitor_step push cfg s i = (s', os, r)" by (metis prod_cases3)
  from monitor_step_contract [OF Cons.prems(1) i b] have s': "window_ok push s'" by blast
  note IH = Cons.IH [OF s' ins]
  show ?case
  proof (cases "\<exists>p. i = Recv (Inr p) \<and> \<not> takes (last_slot s) p")
    case True
    then show ?thesis
      using stale_step [OF Cons.prems(1)] Cons.IH [OF Cons.prems(1) ins] by (auto simp del: monitor_step.simps)
  next
    case False
    have "accepted (last_slot s) (i # ins) = i # accepted (last_slot s') ins" if "r = None"
    proof (cases i)
      case Elapsed
      with elapsed_step [of push cfg s] b show ?thesis by auto
    next
      case (Recv res)
      with that b False taken_last [OF Cons.prems(1)] show ?thesis by (cases res) auto
    qed
    moreover have "\<exists>js. accepted (last_slot s) (i # ins) = i # js"
      using False by (cases "(last_slot s, i # ins)" rule: accepted.cases) auto
    ultimately show ?thesis
      using b IH by (cases r) (auto simp del: monitor_step.simps accepted.simps)
  qed
qed simp

lemma monitor_step_slow:
  assumes "monitor_ok push s" and "monitor_step push cfg s i = (t, os, None)"
  shows "slow_due cfg (reached s) (i # ins) = slow_slots os @ slow_due cfg (reached t) ins"
proof (cases i rule: clock_ok.cases)
  case (1 p)
  note b = assms(2) [unfolded 1]
  show ?thesis
  proof (cases rule: recv_cases [where s = s and p = p])
    case first
    with first_reached [OF assms(1) first b] 1 show ?thesis by (simp add: reached_def)
  next
    case overflow
    with b show ?thesis by (simp add: monitor_step_overflow del: monitor_step.simps)
  next
    case (stale n)
    with b 1 show ?thesis by (auto simp: monitor_step_stale reached_def simp del: monitor_step.simps)
  next
    case (extends n)
    with next_reached [OF assms(1) extends b] 1 show ?thesis by (simp add: reached_def [of s] slow_slot_alert_def)
  qed
next
  case 2
  with elapsed_step [of push cfg s] assms(2) show ?thesis by auto
qed (use assms(2) in auto)

lemma run_slow:
  "monitor_ok push s \<Longrightarrow> run_loop (monitor_step push cfg) s ins = (s', os, None) \<Longrightarrow>
   slow_slots os = slow_due cfg (reached s) ins"
proof (induction ins arbitrary: s os)
  case (Cons i ins)
  obtain t o1 r where b: "monitor_step push cfg s i = (t, o1, r)" by (metis prod_cases3)
  with Cons.prems(2) obtain o2 where r: "r = None" and run: "run_loop (monitor_step push cfg) t ins = (s', o2, None)"
    and os: "os = o1 @ o2" by (cases r) (auto split: prod.splits)
  from monitor_step_any [OF Cons.prems(1) b] have "monitor_ok push t" by blast
  from Cons.IH [OF this run] monitor_step_slow [OF Cons.prems(1) b [unfolded r], of ins] os show ?case by simp
qed simp

lemma consecutive_accepted:
  "consecutive (received_slots (accepted l ins)) \<and>
   (\<forall>n. l = Some n \<longrightarrow> consecutive (n # received_slots (accepted l ins)))"
proof (induction l ins rule: accepted.induct)
  case (2 l p ins)
  then show ?case by (cases l) auto
qed auto

section \<open>The first window\<close>

text \<open>A window under way: the kept durations add up to the time since the monitor started.\<close>

definition filling :: "slot_push \<Rightarrow> instant \<Rightarrow> slot \<Rightarrow> monitor_state \<Rightarrow> bool" where
  "filling push start n s \<longleftrightarrow> window_ok push s \<and> last_slot s = Some n \<and> start \<le> ms_last_instant s \<and>
     sum_list (map sd_duration (ms_slots s)) = ms_last_instant s - start"

lemma filling_step:
  assumes "filling push start n s" and "length (ms_slots s) < SLOTS_BOUND"
    and "slot_input_ok (Recv (Inr p))" and "gp_slot (pi_proof p) = n + 1" and "ms_last_instant s \<le> pi_at p"
  obtains s' os where "monitor_step push cfg s (Recv (Inr p)) = (s', os, None)" and "filling push start (n + 1) s'"
    and "length (ms_slots s') = Suc (length (ms_slots s))" and "ms_last_instant s' = pi_at p"
    and "averages os = averages (avg_slow_alert cfg (n + 1) (ms_slots s')
      ((pi_at p - start) div length (ms_slots s')))"
proof -
  let ?d = "\<lparr>sd_proof = pi_proof p, sd_duration = pi_at p - ms_last_instant s\<rparr>"
  let ?s = "\<lparr>ms_timeout_fired = None, ms_last_instant = pi_at p, ms_slots = ms_slots s @ [?d]\<rparr>"
  from assms(1) have w: "window_ok push s" and l: "last_slot s = Some n"
    and sum: "sum_list (map sd_duration (ms_slots s)) = ms_last_instant s - start" and st: "start \<le> ms_last_instant s"
    by (simp_all add: filling_def)
  have push: "push (ms_slots s) ?d = ms_slots s @ [?d]"
    using w assms(2) by (simp add: window_ok_def force_push_ok_def)
  from monitor_step_next [OF l window_ok_last [OF w l] assms(4)] extend_slots_ok(1) [OF w assms(3), of cfg] push
  obtain os where step: "monitor_step push cfg s (Recv (Inr p)) = (?s, os, None)"
    and os: "os = timekeeper_recovery_alert (ms_timeout_fired s) (gp_slot (pi_proof p)) @
       slow_slot_alert cfg (gp_slot (sd_proof (last (ms_slots s)))) (gp_slot (pi_proof p)) (pi_at p - ms_last_instant s) @
       avg_slow_alert cfg (gp_slot (pi_proof p)) (ms_slots s @ [?d])
         (sum_list (map sd_duration (ms_slots s @ [?d])) div length (ms_slots s @ [?d]))"
    by (simp del: monitor_step.simps)
  have total: "sum_list (map sd_duration (ms_slots s @ [?d])) = pi_at p - start"
    using sum st assms(5) by simp
  have "averages os = averages (avg_slow_alert cfg (n + 1) (ms_slots ?s) ((pi_at p - start) div length (ms_slots ?s)))"
    unfolding os total by (simp add: assms(4) timekeeper_recovery_alert_def slow_slot_alert_def split: option.splits)
  moreover have "filling push start (n + 1) ?s"
    using monitor_step_contract [OF w assms(3) step] total st assms(4,5) by (simp add: filling_def last_slot_def)
  ultimately show ?thesis using that [OF step] by simp
qed

lemma run_filling:
  assumes "filling push start n s" and "length (ms_slots s) + length ps = SLOTS_BOUND" and "ps \<noteq> []"
    and "\<forall>p \<in> set ps. slot_input_ok (Recv (Inr p))" and "consecutive (n # map (\<lambda>p. gp_slot (pi_proof p)) ps)"
    and "sorted (ms_last_instant s # map pi_at ps)"
    and "run_loop (monitor_step push cfg) s (map (\<lambda>p. Recv (Inr p)) ps) = (s', os, r)"
  shows "r = None \<and> averages os =
    (if (pi_at (last ps) - start) div SLOTS_BOUND > avg_slot_threshold cfg
     then [\<lparr>as_slot = gp_slot (pi_proof (last ps)), as_slot_count = SLOTS_BOUND,
            as_avg_slot_time = (pi_at (last ps) - start) div SLOTS_BOUND, as_threshold = avg_slot_threshold cfg\<rparr>]
     else [])"
  using assms
proof (induction ps arbitrary: s n os)
  case (Cons p ps)
  from Cons.prems have slot: "gp_slot (pi_proof p) = n + 1" and len: "length (ms_slots s) < SLOTS_BOUND" by auto
  from Cons.prems(4,6) have p: "slot_input_ok (Recv (Inr p))" "ms_last_instant s \<le> pi_at p" by (simp_all del: slot_input_ok.simps)
  obtain t o1 where step: "monitor_step push cfg s (Recv (Inr p)) = (t, o1, None)" and fill: "filling push start (n + 1) t"
    and t: "length (ms_slots t) = Suc (length (ms_slots s))" "ms_last_instant t = pi_at p"
    and o1: "averages o1 = averages (avg_slow_alert cfg (n + 1) (ms_slots t) ((pi_at p - start) div length (ms_slots t)))"
    using filling_step [OF Cons.prems(1) len p(1) slot p(2)] by blast
  with Cons.prems(7) obtain o2 where run: "run_loop (monitor_step push cfg) t (map (\<lambda>p. Recv (Inr p)) ps) = (s', o2, r)"
    and os: "os = o1 @ o2" by (auto simp del: monitor_step.simps split: prod.splits)
  show ?case
  proof (cases "ps = []")
    case True
    with Cons.prems(2) t have full: "length (ms_slots t) = SLOTS_BOUND" by simp
    with True run os o1 slot show ?thesis by (simp add: avg_slow_alert_def)
  next
    case False
    with Cons.prems(2) t have "length (ms_slots t) < SLOTS_BOUND" by (cases ps) auto
    then have "averages o1 = []" using o1 by (simp add: avg_slow_alert_def)
    moreover have "length (ms_slots t) + length ps = SLOTS_BOUND" using Cons.prems(2) t by simp
    moreover have "consecutive ((n + 1) # map (\<lambda>p. gp_slot (pi_proof p)) ps)" using Cons.prems(5) slot by simp
    moreover have "sorted (ms_last_instant t # map pi_at ps)" using Cons.prems(6) t by simp
    ultimately show ?thesis
      using Cons.IH [OF fill _ False _ _ _ run] Cons.prems(4) False os by simp
  qed
qed simp

lemma run_first_window:
  assumes "force_push_ok push" and "length ps = SLOTS_BOUND" and "list_all slot_input_ok (map (\<lambda>p. Recv (Inr p)) ps)"
    and "consecutive (map (\<lambda>p. gp_slot (pi_proof p)) ps)" and "sorted (start # map pi_at ps)"
  shows "averages (loop_out (monitor_slots push cfg start (map (\<lambda>p. Recv (Inr p)) ps))) =
    (if (pi_at (last ps) - start) div SLOTS_BOUND > avg_slot_threshold cfg
     then [\<lparr>as_slot = gp_slot (pi_proof (last ps)), as_slot_count = SLOTS_BOUND,
            as_avg_slot_time = (pi_at (last ps) - start) div SLOTS_BOUND, as_threshold = avg_slot_threshold cfg\<rparr>]
     else [])"
proof -
  from assms(2) obtain p ps' where ps: "ps = p # ps'" "ps' \<noteq> []"
    by (cases ps; cases "tl ps") (auto simp: SLOTS_BOUND_def)
  let ?s = "(monitor_init start)\<lparr>ms_last_instant := pi_at p,
     ms_slots := [\<lparr>sd_proof = pi_proof p, sd_duration = pi_at p - start\<rparr>]\<rparr>"
  have step: "monitor_step push cfg (monitor_init start) (Recv (Inr p)) = (?s, [], None)"
    using assms(1) by (simp add: monitor_init_def force_push_ok_def SLOTS_BOUND_def duration_since_def)
  have p: "slot_input_ok (Recv (Inr p))" using assms(3) ps by simp
  have "filling push start (gp_slot (pi_proof p)) ?s"
    using monitor_step_contract [OF window_ok_init [OF assms(1)] p step] assms(5) ps
    by (simp add: filling_def last_slot_def)
  moreover have "length (ms_slots ?s) + length ps' = SLOTS_BOUND" using assms(2) ps by simp
  moreover obtain s' os r where run: "run_loop (monitor_step push cfg) ?s (map (\<lambda>p. Recv (Inr p)) ps') = (s', os, r)"
    by (metis prod_cases3)
  ultimately have "averages os = (if (pi_at (last ps') - start) div SLOTS_BOUND > avg_slot_threshold cfg
     then [\<lparr>as_slot = gp_slot (pi_proof (last ps')), as_slot_count = SLOTS_BOUND,
            as_avg_slot_time = (pi_at (last ps') - start) div SLOTS_BOUND, as_threshold = avg_slot_threshold cfg\<rparr>]
     else [])"
    using run_filling [OF _ _ ps(2) _ _ _ run] assms(3,4,5) ps by (simp add: list_all_iff del: slot_input_ok.simps)
  moreover have "loop_out (monitor_slots push cfg start (map (\<lambda>p. Recv (Inr p)) ps)) = os"
    using run ps by (simp add: monitor_slots_def step del: monitor_step.simps)
  ultimately show ?thesis using ps by simp
qed

section \<open>Examples\<close>

text \<open>A push that gives up the newest entries at the bound, which satisfies the law.\<close>

definition truncating_push :: slot_push where
  "truncating_push xs x = take (SLOTS_BOUND - 1) xs @ [x]"

lemma truncating_push_ok: "force_push_ok truncating_push"
  by (auto simp: force_push_ok_def truncating_push_def SLOTS_BOUND_def dest: in_set_takeD)

definition ex_pot :: "u64 \<Rightarrow> instant \<Rightarrow> pot_info" where
  "ex_pot n t = \<lparr>pi_at = t, pi_proof = \<lparr>gp_slot = n, gp_seed = PotSeed 0, gp_slot_iterations = 1,
     gp_checkpoints = PotCheckpoints []\<rparr>\<rparr>"

definition ex_slots_config :: slots_config where
  "ex_slots_config = \<lparr>per_slot_threshold = 1200000000, avg_slot_threshold = 1100000000\<rparr>"

lemma ex_pot_simps [simp]: "pi_at (ex_pot n t) = t" "gp_slot (pi_proof (ex_pot n t)) = n"
  by (simp_all add: ex_pot_def)

lemma consecutive_upt: "consecutive (of_nat m # map of_nat [Suc m..<Suc m + k])"
proof (induction k arbitrary: m)
  case (Suc k)
  have "[Suc m..<Suc m + Suc k] = Suc m # [Suc (Suc m)..<Suc (Suc m) + k]"
    by (simp add: upt_conv_Cons del: upt_Suc)
  with Suc [of "Suc m"] show ?case by (simp add: add.commute del: upt_Suc)
qed simp

text \<open>\<open>k\<close> slots from \<open>lo\<close> on, one every \<open>d\<close> nanoseconds.\<close>

definition ex_stream :: "duration \<Rightarrow> nat \<Rightarrow> nat \<Rightarrow> pot_info list" where
  "ex_stream d lo k = map (\<lambda>i. ex_pot (of_nat i) (i * d)) [lo..<lo + k]"

lemma length_ex_stream [simp]: "length (ex_stream d lo k) = k"
  by (simp add: ex_stream_def)

lemma set_ex_stream: "p \<in> set (ex_stream d lo k) \<Longrightarrow> \<exists>i. lo \<le> i \<and> i < lo + k \<and> p = ex_pot (of_nat i) (i * d)"
  by (auto simp: ex_stream_def)

lemma last_ex_stream: "last (ex_stream d lo (Suc k)) = ex_pot (of_nat (lo + k)) ((lo + k) * d)"
  by (simp add: ex_stream_def)

lemma consecutive_ex_stream: "consecutive (map (\<lambda>p. gp_slot (pi_proof p)) (ex_stream d lo (Suc k)))"
proof -
  have "[lo..<lo + Suc k] = lo # [Suc lo..<Suc lo + k]" by (simp add: upt_conv_Cons del: upt_Suc)
  with consecutive_upt [of lo k] show ?thesis by (simp add: ex_stream_def comp_def del: upt_Suc)
qed

lemma sorted_ex_stream: "sorted (0 # map pi_at (ex_stream d lo k))"
  by (auto simp: ex_stream_def comp_def sorted_iff_nth_mono)

lemma unat_small: "i < 2 ^ 32 \<Longrightarrow> unat (of_nat i :: u64) = i"
  by (simp add: unat_of_nat take_bit_nat_eq_self)

lemma duration_bounds: "DURATION_MAX div SLOTS_BOUND = 30744573456182586026666666" "SLOT_TIMEOUT = 30000000000"
  by (simp_all add: DURATION_MAX_def SLOTS_BOUND_def SLOT_TIMEOUT_def duration_from_secs_def NANOS_PER_SEC_def)

lemmas ex_slots_eval =
  monitor_slots_def monitor_init_def truncating_push_def SLOTS_BOUND_def ex_slots_config_def checked_add_one
  extend_slots_def Let_def avg_slot_time_def duration_checked_add_def duration_div_def expect_def
  timekeeper_recovery_alert_def slow_slot_alert_def avg_slow_alert_def timekeeper_stall_alert_def
  duration_since_def next_stall_def duration_bounds DURATION_MAX_def NANOS_PER_SEC_def

lemma run_window_ok:
  assumes "force_push_ok push" and "list_all slot_input_ok ins" and "monitor_slots push cfg start ins = (s, alerts, r)"
  shows "window_ok push s"
  using slots.run_inv [OF window_ok_init [OF assms(1)] assms(2)] assms(3) by (simp add: monitor_slots_def)

lemma extend_alerts:
  assumes "window_ok push s" and "slot_input_ok (Recv (Inr p))" and "ms_timeout_fired s = Some d"
  shows "\<exists>s' rest. extend_slots push cfg s p =
      (s', TimekeeperRecovery \<lparr>tr_slot = gp_slot (pi_proof p), tr_duration = d\<rparr> # rest, None) \<and>
      ms_timeout_fired s' = None \<and> set rest \<subseteq> range SlowSlot \<union> range AvgSlowSlots"
  using extend_slots_ok(1) [OF assms(1,2), of cfg] assms(3)
  by (auto simp: timekeeper_recovery_alert_def slow_slot_alert_def avg_slow_alert_def)

section \<open>Properties\<close>

text \<open>
  C7: The monitor follows one chain of slots: after the first slot it takes exactly the slots
  that extend it by one, and every other notification (a repeat of the same slot by another
  peer, an old one, one from the future) changes nothing.  A run on any stream is the run on the slots
  taken, and those are consecutive.
\<close>

theorem slots_run_on_accepted:
  assumes "force_push_ok push" and "list_all slot_input_ok ins"
  shows "monitor_slots push cfg start ins = monitor_slots push cfg start (accepted None ins) \<and>
    consecutive (received_slots (accepted None ins))"
  using run_accepted [OF window_ok_init [OF assms(1)] assms(2), of cfg start] consecutive_accepted
  by (simp add: monitor_slots_def monitor_init_def last_slot_def)

theorem slots_run_on_accepted_witness:
  "monitor_slots truncating_push ex_slots_config 0
     [Recv (Inr (ex_pot 5 10)), Recv (Inr (ex_pot 5 11)), Recv (Inr (ex_pot 6 20)), Recv (Inr (ex_pot 5 21))] =
   monitor_slots truncating_push ex_slots_config 0 [Recv (Inr (ex_pot 5 10)), Recv (Inr (ex_pot 6 20))]"
proof -
  let ?ins = "[Recv (Inr (ex_pot 5 10)), Recv (Inr (ex_pot 5 11)), Recv (Inr (ex_pot 6 20)), Recv (Inr (ex_pot 5 21))]"
  have "list_all slot_input_ok ?ins" by (simp add: duration_bounds)
  from slots_run_on_accepted [OF truncating_push_ok this, of ex_slots_config 0] show ?thesis by simp
qed

text \<open>
  C14: A slow slot is reported exactly when a taken slot arrives more than the threshold after
  the slot before it: the slow-slot alerts of a run are those that can be read off the
  received stream, in order, with the two slots and the time between their arrivals.
\<close>

theorem slow_slot_alerts_exact:
  assumes "force_push_ok push" and "monitor_slots push cfg start ins = (s, alerts, None)"
  shows "slow_slots alerts = slow_due cfg None ins"
  using run_slow [OF monitor_ok_init [OF assms(1)]] assms(2)
  by (simp add: monitor_slots_def monitor_init_def reached_def last_slot_def)

theorem slow_slot_alerts_exact_witness:
  "slow_slots (loop_out (monitor_slots truncating_push ex_slots_config 0
     [Recv (Inr (ex_pot 5 1000000000)), Recv (Inr (ex_pot 6 2000000000)), Recv (Inr (ex_pot 7 3500000000))])) =
   [\<lparr>ss_slot = 7, ss_previous_slot = 6, ss_slot_time = 1500000000, ss_threshold = 1200000000\<rparr>]"
proof -
  let ?ins = "[Recv (Inr (ex_pot 5 1000000000)), Recv (Inr (ex_pot 6 2000000000)), Recv (Inr (ex_pot 7 3500000000))]"
  obtain s alerts where run: "monitor_slots truncating_push ex_slots_config 0 ?ins = (s, alerts, None)"
    by (simp add: ex_slots_eval)
  from slow_slot_alerts_exact [OF truncating_push_ok run] show ?thesis
    unfolding run by (simp add: ex_slots_config_def)
qed

text \<open>
  C34: One missed slot silences the monitor: if the slot after the one reached never arrives,
  no later slot is taken however many arrive, the state never changes again and no alert of
  any kind is sent for them, not even a stall, since notifications keep arriving in time.
\<close>

theorem slot_gap_is_permanent:
  assumes "monitor_slots push cfg start past = (s, alerts, None)" and "last_slot s = Some n" and "n \<noteq> - 1"
    and "\<forall>p \<in> set later. gp_slot (pi_proof p) \<noteq> n + 1"
  shows "monitor_slots push cfg start (past @ map (\<lambda>p. Recv (Inr p)) later) = (s, alerts, None)"
proof -
  have "run_loop (monitor_step push cfg) s (map (\<lambda>p. Recv (Inr p)) later) = (s, [], None)"
    using assms(4) monitor_step_stale [OF assms(2,3)]
    by (induction later) (auto simp del: monitor_step.simps)
  with run_loop_append [OF assms(1) [unfolded monitor_slots_def]] show ?thesis by (simp add: monitor_slots_def)
qed

theorem slot_gap_is_permanent_witness:
  "loop_out (monitor_slots truncating_push ex_slots_config 0
     ([Recv (Inr (ex_pot 5 0))] @ map (\<lambda>p. Recv (Inr p)) (ex_stream 10000000000 7 1000))) = []"
proof -
  have run: "monitor_slots truncating_push ex_slots_config 0 [Recv (Inr (ex_pot 5 0))] =
    (\<lparr>ms_timeout_fired = None, ms_last_instant = 0, ms_slots = [\<lparr>sd_proof = pi_proof (ex_pot 5 0), sd_duration = 0\<rparr>]\<rparr>, [], None)"
    by (simp add: ex_slots_eval)
  have "\<forall>p \<in> set (ex_stream 10000000000 7 1000). gp_slot (pi_proof p) \<noteq> 5 + 1"
    by (auto dest!: set_ex_stream simp: word_unat_eq_iff unat_small)
  from slot_gap_is_permanent [OF run _ _ this] show ?thesis by (simp add: last_slot_def)
qed

text \<open>
  C25: When the timekeeper stalls for \<open>k\<close> waits of 30 seconds at slot \<open>n\<close>, a stall alert naming
  that slot is sent for each of them, with durations of one to \<open>k\<close> waits; slot \<open>n + 1\<close> then sends
  one recovery alert with the whole length of the stall, before its other alerts.
\<close>

theorem timekeeper_stall_reported:
  assumes "force_push_ok push" and "list_all slot_input_ok past" and "slot_input_ok (Recv (Inr p))"
    and "monitor_slots push cfg start past = (s, alerts, None)" and "ms_timeout_fired s = None"
    and "last_slot s = Some n" and "gp_slot (pi_proof p) = n + 1" and "0 < k"
  shows "\<exists>s' rest. monitor_slots push cfg start (past @ replicate k Elapsed @ [Recv (Inr p)]) =
      (s', alerts @
         map (\<lambda>i. TimekeeperStall \<lparr>ts_last_slot = n, ts_duration = stall_length SLOT_TIMEOUT i\<rparr>) [1..<Suc k] @
         TimekeeperRecovery \<lparr>tr_slot = n + 1, tr_duration = stall_length SLOT_TIMEOUT k\<rparr> # rest, None) \<and>
      ms_timeout_fired s' = None \<and> set rest \<subseteq> range SlowSlot \<union> range AvgSlowSlots"
proof -
  let ?s = "s\<lparr>ms_timeout_fired := Some (stall_length SLOT_TIMEOUT k)\<rparr>"
  have "ms_timeout_fired s = stall_clock SLOT_TIMEOUT 0" using assms(5) by (simp add: stall_clock_def)
  from slots_stall.run_elapsed [OF this, of push cfg k]
  have stall: "run_loop (monitor_step push cfg) s (replicate k Elapsed) =
      (?s, map (\<lambda>i. TimekeeperStall \<lparr>ts_last_slot = n, ts_duration = stall_length SLOT_TIMEOUT i\<rparr>) [1..<Suc k], None)"
    using assms(6,8) by (simp add: stall_clock_def timekeeper_stall_alert_def last_slot_Some concat_map_singleton del: upt_Suc)
  have w: "window_ok push s" using run_window_ok assms(1,2,4) by blast
  have "list_all slot_input_ok (replicate k Elapsed)" by (induction k) auto
  then have w': "window_ok push ?s" using slots.run_inv [OF w _ stall] by simp
  have l: "last_slot ?s = Some n" using assms(6) by (simp add: last_slot_Some)
  have "ms_timeout_fired ?s = Some (stall_length SLOT_TIMEOUT k)" by simp
  from extend_alerts [OF w' assms(3) this, of cfg] obtain s' rest where
    "extend_slots push cfg ?s p = (s', TimekeeperRecovery \<lparr>tr_slot = n + 1, tr_duration = stall_length SLOT_TIMEOUT k\<rparr> # rest, None)"
    and rest: "ms_timeout_fired s' = None" "set rest \<subseteq> range SlowSlot \<union> range AvgSlowSlots"
    unfolding assms(7) by blast
  with monitor_step_next [OF l window_ok_last [OF w' l] assms(7)]
  have "run_loop (monitor_step push cfg) ?s [Recv (Inr p)] =
    (s', TimekeeperRecovery \<lparr>tr_slot = n + 1, tr_duration = stall_length SLOT_TIMEOUT k\<rparr> # rest, None)"
    by (simp del: monitor_step.simps)
  with run_loop_append [OF assms(4) [unfolded monitor_slots_def]] run_loop_append [OF stall] rest show ?thesis
    by (simp add: monitor_slots_def)
qed

theorem timekeeper_stall_reported_witness:
  "\<exists>s' rest. monitor_slots truncating_push ex_slots_config 0
      ([Recv (Inr (ex_pot 5 0))] @ replicate 2 Elapsed @ [Recv (Inr (ex_pot 6 61000000000))]) =
      (s', TimekeeperStall \<lparr>ts_last_slot = 5, ts_duration = 30000000000\<rparr> #
           TimekeeperStall \<lparr>ts_last_slot = 5, ts_duration = 60000000000\<rparr> #
           TimekeeperRecovery \<lparr>tr_slot = 6, tr_duration = 60000000000\<rparr> # rest, None)"
proof -
  have run: "monitor_slots truncating_push ex_slots_config 0 [Recv (Inr (ex_pot 5 0))] =
    (\<lparr>ms_timeout_fired = None, ms_last_instant = 0, ms_slots = [\<lparr>sd_proof = pi_proof (ex_pot 5 0), sd_duration = 0\<rparr>]\<rparr>, [], None)"
    by (simp add: ex_slots_eval)
  have ok: "list_all slot_input_ok [Recv (Inr (ex_pot 5 0))]" "slot_input_ok (Recv (Inr (ex_pot 6 61000000000)))"
    by (simp_all add: duration_bounds)
  have "[1..<Suc 2] = [1, 2]" by (simp add: upt_rec)
  with timekeeper_stall_reported [OF truncating_push_ok ok run, of 5 2] show ?thesis
    by (simp add: last_slot_def stall_length_def duration_bounds DURATION_MAX_def NANOS_PER_SEC_def del: upt_Suc) blast
qed

text \<open>
  C24: However long the monitor runs and whatever peers notify, its window holds at most 600 slots
  and every alert is justified (a full window and a breached average, a slot after its
  predecessor and a breached slot time, a stall of at least one wait).  With clock readings below
  a 600th of the longest duration it ends only with an error of the broadcast channel that it
  received, or with the panic of adding one to the largest 64-bit slot, and then that slot is
  the last one taken.
\<close>

theorem slot_monitor_safe:
  assumes "force_push_ok push" and "list_all clock_ok ins"
    and "monitor_slots push cfg start ins = (s, alerts, r)"
  shows "length (ms_slots s) \<le> 600 \<and> list_all (slot_alert_ok cfg) alerts \<and>
    pred_option (\<lambda>f. (\<exists>e. Recv (Inl e) \<in> set ins \<and> f = Err (BroadRecvErr e)) \<or>
      (f = Panic ''attempt to add with overflow'' \<and> last_slot s = Some (- 1))) r"
proof -
  note run = assms(3) [unfolded monitor_slots_def]
  have "monitor_ok push s \<and> list_all (slot_alert_ok cfg) alerts"
    using slots_any.run_contract [OF monitor_ok_init [OF assms(1)] _ run] by (auto simp: list_all_iff)
  moreover have "pred_option (\<lambda>f. (\<exists>e. Recv (Inl e) \<in> set ins \<and> f = Err (BroadRecvErr e)) \<or>
      (f = Panic ''attempt to add with overflow'' \<and> last_slot s = Some (- 1))) r"
    using run_monitor_ends [OF window_clocked_init [OF assms(1)] assms(2)] run by (cases r) auto
  ultimately show ?thesis by (simp add: monitor_ok_def SLOTS_BOUND_def)
qed

theorem slot_monitor_safe_witness:
  "\<exists>s alerts. monitor_slots truncating_push ex_slots_config 0 [Recv (Inr (ex_pot 5 0)), Elapsed, Recv (Inl Closed)] =
     (s, alerts, Some (Err (BroadRecvErr Closed))) \<and> length (ms_slots s) \<le> 600 \<and> list_all (slot_alert_ok ex_slots_config) alerts"
proof -
  let ?ins = "[Recv (Inr (ex_pot 5 0)), Elapsed, Recv (Inl Closed)]"
  obtain s alerts where run: "monitor_slots truncating_push ex_slots_config 0 ?ins = (s, alerts, Some (Err (BroadRecvErr Closed)))"
    by (simp add: ex_slots_eval)
  have "list_all clock_ok ?ins" by (simp add: clocked_def)
  from slot_monitor_safe [OF truncating_push_ok this run] run show ?thesis by blast
qed

text \<open>
  C19: A peer can end the program with two notifications.  If the first slot the monitor takes is
  the largest 64-bit number, nothing happens at once, but the next notification of any slot, by
  any peer and after any number of timeouts, panics on adding one to it.
\<close>

theorem max_slot_panics:
  assumes "force_push_ok push" and "monitor_slots push cfg start past = (s, alerts, None)"
    and "last_slot s = None" and "gp_slot (pi_proof p) = - 1"
  shows "\<exists>s' stalls. monitor_slots push cfg start (past @ Recv (Inr p) # replicate k Elapsed @ [Recv (Inr q)]) =
    (s', alerts @ stalls, Some (Panic ''attempt to add with overflow''))"
proof -
  let ?run = "run_loop (monitor_step push cfg)"
  have "monitor_ok push s"
    using slots_any.run_inv [OF monitor_ok_init [OF assms(1)] _ assms(2) [unfolded monitor_slots_def]]
    by (simp add: list_all_iff)
  then obtain t where t: "monitor_step push cfg s (Recv (Inr p)) = (t, [], None)" "last_slot t = Some (- 1)"
    using assms(3,4) by (auto simp: monitor_step_start last_slot_def simp del: monitor_step.simps)
  have "\<exists>u stalls. ?run t (replicate k Elapsed) = (u, stalls, None) \<and> last_slot u = Some (- 1)"
    using t(2)
  proof (induction k arbitrary: t)
    case (Suc k)
    obtain t' os where e: "monitor_step push cfg t Elapsed = (t', os, None)" "last_slot t' = last_slot t"
      using elapsed_step [of push cfg t] by blast
    with Suc.IH [of t'] Suc.prems show ?case by (auto simp del: monitor_step.simps)
  qed simp
  then obtain u stalls where u: "?run t (replicate k Elapsed) = (u, stalls, None)" "last_slot u = Some (- 1)" by blast
  have "?run s (Recv (Inr p) # replicate k Elapsed @ [Recv (Inr q)]) = (u, stalls, Some (Panic ''attempt to add with overflow''))"
    using run_loop_append [OF u(1), of "[Recv (Inr q)]"] monitor_step_overflow [OF u(2), of push cfg q] t(1)
    by (simp del: monitor_step.simps)
  with run_loop_append [OF assms(2) [unfolded monitor_slots_def]] show ?thesis by (simp add: monitor_slots_def)
qed

theorem max_slot_panics_witness:
  "loop_end (monitor_slots truncating_push ex_slots_config 0
     ([Elapsed] @ Recv (Inr (ex_pot (- 1) 5)) # replicate 0 Elapsed @ [Recv (Inr (ex_pot 7 9))])) =
   Some (Panic ''attempt to add with overflow'')"
proof -
  obtain s alerts where run: "monitor_slots truncating_push ex_slots_config 0 [Elapsed] = (s, alerts, None)" "last_slot s = None"
    by (simp add: ex_slots_eval last_slot_def)
  have "gp_slot (pi_proof (ex_pot (- 1) 5)) = - 1" by simp
  from max_slot_panics [OF truncating_push_ok run this, of 0 "ex_pot 7 9"] show ?thesis by auto
qed

text \<open>
  C28: The first average is taken when the 600th consecutive slot arrives, and it is the time
  since the monitor started divided by 600: an average alert is sent then exactly when this
  exceeds the threshold, and none is sent before.
\<close>

theorem first_window_average:
  assumes "force_push_ok push" and "length ps = SLOTS_BOUND" and "list_all slot_input_ok (map (\<lambda>p. Recv (Inr p)) ps)"
    and "consecutive (map (\<lambda>p. gp_slot (pi_proof p)) ps)" and "sorted (start # map pi_at ps)"
  shows "averages (loop_out (monitor_slots push cfg start (map (\<lambda>p. Recv (Inr p)) ps))) =
    (if (pi_at (last ps) - start) div 600 > avg_slot_threshold cfg
     then [\<lparr>as_slot = gp_slot (pi_proof (last ps)), as_slot_count = 600,
            as_avg_slot_time = (pi_at (last ps) - start) div 600, as_threshold = avg_slot_threshold cfg\<rparr>]
     else [])"
  using run_first_window [OF assms] by (simp add: SLOTS_BOUND_def)

theorem first_window_average_witness:
  "averages (loop_out (monitor_slots truncating_push ex_slots_config 0
      (map (\<lambda>p. Recv (Inr p)) (ex_stream 2000000000 1 (Suc 599))))) =
   [\<lparr>as_slot = 600, as_slot_count = 600, as_avg_slot_time = 2000000000, as_threshold = 1100000000\<rparr>]"
proof -
  let ?ps = "ex_stream 2000000000 1 (Suc 599)"
  have len: "length ?ps = SLOTS_BOUND" by (simp add: SLOTS_BOUND_def)
  have "slot_input_ok (Recv (Inr p))" if "p \<in> set ?ps" for p
    using set_ex_stream [OF that]
    by (auto simp: duration_bounds word_unat_eq_iff unat_small unsigned_minus_1_eq_mask mask_eq_exp_minus_1)
  then have ok: "list_all slot_input_ok (map (\<lambda>p. Recv (Inr p)) ?ps)" by (simp add: list_all_iff)
  have "last ?ps = ex_pot 600 1200000000000" using last_ex_stream [of 2000000000 1 599] by simp
  with first_window_average [OF truncating_push_ok len ok consecutive_ex_stream sorted_ex_stream, of ex_slots_config]
  show ?thesis by (simp add: ex_slots_config_def)
qed

end
