(* ===== verification/Chain_Client.thy ===== *)
theory Chain_Client
  imports Block_Listener
begin

text \<open>
  What the alerter asks of a block and of the node besides headers
  (\<^verbatim>\<open>alerter/src/subspace.rs\<close>): the accessors of \<open>BlockExt\<close>, the construction of the client
  and the details of the network.

  The client (subxt) is a record of its answers: storage values by pallet, entry and block, the
  block's body and the block's events.  SCALE decoders of the types read are arguments.
\<close>

type_synonym timestamp = u64

record 'evs client =
  cl_fetch :: "string \<Rightarrow> string \<Rightarrow> block_hash \<Rightarrow> string + u8 list option"
  cl_block_body :: "block_hash \<Rightarrow> string + u8 list list option"
  cl_events :: "block_hash \<Rightarrow> string + 'evs"

definition read_storage ::
  "'evs client \<Rightarrow> (u8 list \<Rightarrow> string + 'a) \<Rightarrow> block_ext \<Rightarrow> string \<Rightarrow> string \<Rightarrow> 'a result" where
  "read_storage cl decode b pallet storage =
     bind_res (try_from ForSubxt (cl_fetch cl pallet storage (be_hash b))) (\<lambda>maybe_encoded.
     bind_res (ok_or (Storage (pallet @ ''.'' @ storage)) maybe_encoded) (\<lambda>encoded.
     question Scale (decode encoded)))"

definition block_timestamp :: "'evs client \<Rightarrow> (u8 list \<Rightarrow> string + timestamp) \<Rightarrow> block_ext \<Rightarrow> timestamp result" where
  "block_timestamp cl decode b = read_storage cl decode b ''Timestamp'' ''Now''"

definition block_slot ::
  "'evs client \<Rightarrow> (u8 list \<Rightarrow> string + (block_number \<rightharpoonup> u64)) \<Rightarrow> block_ext \<Rightarrow> u64 result" where
  "block_slot cl decode b =
     bind_res (read_storage cl decode b ''Subspace'' ''BlockSlots'') (\<lambda>slots.
     ok_or (Storage (''Missing slot for block: '' @ show_word (be_number b) @ '')'')) (slots (be_number b)))"

definition block_extrinsics :: "'evs client \<Rightarrow> (u8 list \<Rightarrow> string + 'x) \<Rightarrow> block_ext \<Rightarrow> 'x list result" where
  "block_extrinsics cl decode b =
     bind_res (try_from ForSubxt (cl_block_body cl (be_hash b))) (\<lambda>maybe_body.
     bind_res (ok_or (MissingBlockBody (be_hash b)) maybe_body) (\<lambda>body.
     try_from ForCodec (try_collect (map decode body))))"

definition block_events :: "'evs client \<Rightarrow> block_ext \<Rightarrow> 'evs result" where
  "block_events cl b = try_from ForSubxt (cl_events cl (be_hash b))"

section \<open>The network\<close>

text \<open>
  The properties reported by the node are a JSON object; \<open>as_u64\<close> and \<open>as_str\<close> are the accessors
  of a JSON value.
\<close>

datatype json_value = JsonU64 u64 | JsonStr string | JsonOther

fun as_u64 :: "json_value \<Rightarrow> u64 option" where
  "as_u64 (JsonU64 n) = Some n"
| "as_u64 _ = None"

fun as_str :: "json_value \<Rightarrow> string option" where
  "as_str (JsonStr s) = Some s"
| "as_str _ = None"

datatype ss58_address_format = Ss58Custom u16

record rpc =
  rpc_system_chain :: "string + string"
  rpc_system_properties :: "string + (string \<rightharpoonup> json_value)"
  rpc_block_hash :: "block_number \<Rightarrow> string + block_hash option"

record network_details =
  nd_name :: string
  nd_ss58_format :: ss58_address_format
  nd_token_symbol :: string
  nd_token_decimals :: u8
  nd_genesis_hash :: block_hash

definition network_details_of :: "rpc \<Rightarrow> network_details result" where
  "network_details_of r =
     bind_res (try_from ForRpc (rpc_system_chain r)) (\<lambda>name.
     bind_res (try_from ForRpc (rpc_system_properties r)) (\<lambda>props.
     bind_res (try_from ForRpc (rpc_block_hash r 0)) (\<lambda>maybe_hash.
     bind_res (expect ''Block hash always exists'' maybe_hash) (\<lambda>genesis_hash.
     bind_res (ok_or (Config ''Failed to get Ss58Format'')
       (Option.bind (props ''ss58Format'') (\<lambda>v. map_option (\<lambda>n. Ss58Custom (ucast n)) (as_u64 v)))) (\<lambda>ss58_format.
     bind_res (ok_or (Config ''Failed to get Token Symbol'')
       (Option.bind (props ''tokenSymbol'') as_str)) (\<lambda>token_symbol.
     bind_res (ok_or (Config ''Failed to get Token Symbol'')
       (Option.bind (props ''tokenDecimals'') as_u64)) (\<lambda>decimals.
     Inr \<lparr>nd_name = name, nd_ss58_format = ss58_format, nd_token_symbol = token_symbol,
          nd_token_decimals = ucast decimals, nd_genesis_hash = genesis_hash\<rparr>)))))))"

text \<open>
  \<open>new_from_url\<close>: the reconnecting RPC client first (its errors are wrapped as RPC errors), then the
  subxt client.  What is built is the pair of connections; the broadcast channel is the
  message flow of the tasks.
\<close>

record ('r, 'c) subspace =
  su_rpc :: 'r
  su_client :: 'c

definition new_from_url ::
  "(string \<Rightarrow> string + 'r) \<Rightarrow> (string \<Rightarrow> string + 'c) \<Rightarrow> string \<Rightarrow> ('r, 'c) subspace result" where
  "new_from_url connect_rpc connect_client url =
     bind_res (question Rpc (connect_rpc url)) (\<lambda>r.
     bind_res (try_from ForSubxt (connect_client url)) (\<lambda>c.
     Inr \<lparr>su_rpc = r, su_client = c\<rparr>))"

section \<open>Properties\<close>

lemma ok_or_eq_Inr [res_simps]: "ok_or e x = Inr a \<longleftrightarrow> x = Some a"
  by (cases x) (auto simp: ok_or_def)

lemma expect_eq_Inr [res_simps]: "expect m x = Inr a \<longleftrightarrow> x = Some a"
  by (cases x) (auto simp: expect_def)

lemma question_eq_Inr [res_simps]: "question k r = Inr a \<longleftrightarrow> r = Inr a"
  by (cases r) (auto simp: question_def)

lemmas res_Inr = bind_res_eq_Inr ok_or_eq_Inr expect_eq_Inr question_eq_Inr

lemma as_u64_Some: "as_u64 v = Some n \<longleftrightarrow> v = JsonU64 n"
  by (cases v) auto

lemma as_str_Some: "as_str v = Some s \<longleftrightarrow> v = JsonStr s"
  by (cases v) auto

lemma unat_ucast_mod: "unat (ucast (n::u64) :: 'b::len word) = unat n mod 2 ^ LENGTH('b)"
  by (simp add: unsigned_ucast_eq take_bit_eq_mod)

lemma u8_trunc: "ucast (n::u64) = (x::u8) \<longleftrightarrow> unat x = unat n mod 2 ^ 8"
  using unat_ucast_mod [where 'b=8, of n] by (auto simp: word_unat_eq_iff)

lemma u16_trunc: "(ucast (n::u64) :: u16) = of_nat (unat n mod 2 ^ 16)"
  using unat_ucast_mod [where 'b=16, of n] by (simp add: word_unat_eq_iff unat_of_nat take_bit_eq_mod)

text \<open>
  C39: The network details are those the node reports: they are available exactly when the node
  answers and its properties hold numbers for the address format and the decimals and a text
  for the symbol; the address format is reported modulo \<open>2^16\<close> and the decimals modulo \<open>2^8\<close>.
\<close>

theorem network_details_exact:
  "network_details_of r = Inr d \<longleftrightarrow>
     (\<exists>props format decimals.
        rpc_system_chain r = Inr (nd_name d) \<and> rpc_system_properties r = Inr props \<and>
        rpc_block_hash r 0 = Inr (Some (nd_genesis_hash d)) \<and>
        props ''ss58Format'' = Some (JsonU64 format) \<and>
        props ''tokenSymbol'' = Some (JsonStr (nd_token_symbol d)) \<and>
        props ''tokenDecimals'' = Some (JsonU64 decimals) \<and>
        nd_ss58_format d = Ss58Custom (of_nat (unat format mod 2 ^ 16)) \<and>
        unat (nd_token_decimals d) = unat decimals mod 2 ^ 8)"
  by (cases d)
    (auto simp: network_details_of_def res_Inr Option.bind_eq_Some_conv as_u64_Some as_str_Some u16_trunc u8_trunc)

text \<open>
  The slot of a block is the one stored under its number at that very block, and each way of
  not finding it is told apart: a failed query, an absent or undecodable storage entry, and an
  entry without the block.
\<close>

lemma block_slot_cases:
  "block_slot cl decode b =
     (case cl_fetch cl ''Subspace'' ''BlockSlots'' (be_hash b) of
        Inl e \<Rightarrow> Inl (Err (Subxt e))
      | Inr None \<Rightarrow> Inl (Err (Storage ''Subspace.BlockSlots''))
      | Inr (Some bytes) \<Rightarrow>
          (case decode bytes of
             Inl e \<Rightarrow> Inl (Err (Scale e))
           | Inr slots \<Rightarrow>
               (case slots (be_number b) of
                  Some n \<Rightarrow> Inr n
                | None \<Rightarrow> Inl (Err (Storage (''Missing slot for block: '' @ show_word (be_number b) @ '')''))))))"
  by (auto simp: block_slot_def read_storage_def res_defs split: sum.splits option.splits)

end
