(* ===== verification/Events_Watch.thy ===== *)
theory Events_Watch
  imports Alerts Chain_Client
begin

text \<open>
  The event monitor (\<^verbatim>\<open>alerter/src/events.rs\<close>): for every broadcast block it reads the events,
  keeps the balance movements of known accounts and the other watched events, and sends an
  alert for each.

  Finding the events of a static type among a block's events is subxt's \<open>find\<close>; the record
  \<open>finders\<close> holds it for each type, every item either the decoded event or a decoding error.  The
  parser of SS58 addresses is an argument too.
\<close>

record account =
  ac_name :: string
  ac_address :: string

record 'evs finders =
  find_balance_transfer :: "'evs \<Rightarrow> (string + balance_transfer) list"
  find_balance_deposit :: "'evs \<Rightarrow> (string + balance_deposit) list"
  find_balance_withdraw :: "'evs \<Rightarrow> (string + balance_withdraw) list"
  find_domain_runtime_upgraded :: "'evs \<Rightarrow> (string + domain_runtime_upgraded) list"
  find_domain_instantiated :: "'evs \<Rightarrow> (string + domain_instantiated) list"
  find_fraud_proof_processed :: "'evs \<Rightarrow> (string + fraud_proof_processed) list"
  find_operator_slashed :: "'evs \<Rightarrow> (string + operator_slashed) list"
  find_operator_offline :: "'evs \<Rightarrow> (string + operator_offline) list"
  find_sudo :: "'evs \<Rightarrow> (string + sudo_event) list"
  find_code_updated :: "'evs \<Rightarrow> (string + code_updated) list"

type_synonym accounts = "account_id \<rightharpoonup> account"

fun account_mapped_name :: "(string \<Rightarrow> account_id option) \<Rightarrow> accounts \<Rightarrow> account list \<Rightarrow> accounts result" where
  "account_mapped_name from_str m [] = Inr m"
| "account_mapped_name from_str m (a # as) =
     bind_res (expect ''Must be a valid SS58 address'' (from_str (ac_address a)))
       (\<lambda>id. account_mapped_name from_str (m(id \<mapsto> a)) as)"

text \<open>The closure of \<open>filter_known_account_transfers\<close>, and the function itself.\<close>

definition known_transfer ::
  "'t transfer_event_ops \<Rightarrow> accounts \<Rightarrow> 't \<Rightarrow> transfer_known_account_event option" where
  "known_transfer ops accounts e =
     (case Option.bind (ev_from ops e) accounts of
        Some account \<Rightarrow>
          Some \<lparr>tk_direction = Sender, tk_transfer_type = ev_transfer_type ops e, tk_name = ac_name account,
                tk_address = ac_address account, tk_amount = ev_amount ops e\<rparr>
      | None \<Rightarrow>
          (case Option.bind (ev_to ops e) accounts of
             Some account \<Rightarrow>
               Some \<lparr>tk_direction = Receiver, tk_transfer_type = ev_transfer_type ops e, tk_name = ac_name account,
                     tk_address = ac_address account, tk_amount = ev_amount ops e\<rparr>
           | None \<Rightarrow> None))"

definition filter_known_account_transfers ::
  "'t transfer_event_ops \<Rightarrow> accounts \<Rightarrow> 't list \<Rightarrow> transfer_known_account_event list" where
  "filter_known_account_transfers ops accounts events = List.map_filter (known_transfer ops accounts) events"

definition as_events :: "('e \<Rightarrow> event) \<Rightarrow> ('evs \<Rightarrow> (string + 'e) list) \<Rightarrow> 'evs \<Rightarrow> event list result" where
  "as_events into finder evs = bind_res (try_from ForSubxt (try_collect (finder evs))) (\<lambda>es. Inr (map into es))"

text \<open>The three balance movements, and all events of one block, in the order the program extends its lists.\<close>

definition known_transfers :: "'evs finders \<Rightarrow> accounts \<Rightarrow> 'evs \<Rightarrow> transfer_known_account_event list result" where
  "known_transfers f accounts evs =
     bind_res (try_from ForSubxt (try_collect (find_balance_transfer f evs))) (\<lambda>ts.
     bind_res (try_from ForSubxt (try_collect (find_balance_deposit f evs))) (\<lambda>ds.
     bind_res (try_from ForSubxt (try_collect (find_balance_withdraw f evs))) (\<lambda>ws.
     Inr (filter_known_account_transfers balance_transfer_ops accounts ts @
          filter_known_account_transfers balance_deposit_ops accounts ds @
          filter_known_account_transfers balance_withdraw_ops accounts ws))))"

definition events_of_block :: "'evs finders \<Rightarrow> accounts \<Rightarrow> 'evs \<Rightarrow> event list result" where
  "events_of_block f accounts evs =
     bind_res (known_transfers f accounts evs) (\<lambda>transfers.
     bind_res (as_events from_domain_runtime_upgraded (find_domain_runtime_upgraded f) evs) (\<lambda>upgraded.
     bind_res (as_events from_domain_instantiated (find_domain_instantiated f) evs) (\<lambda>instantiated.
     bind_res (as_events from_fraud_proof_processed (find_fraud_proof_processed f) evs) (\<lambda>proofs.
     bind_res (as_events from_operator_slashed (find_operator_slashed f) evs) (\<lambda>slashed.
     bind_res (as_events from_operator_offline (find_operator_offline f) evs) (\<lambda>offline.
     bind_res (as_events from_sudo (find_sudo f) evs) (\<lambda>sudo.
     bind_res (as_events from_code_updated (find_code_updated f) evs) (\<lambda>updated.
     Inr (map from_transfer_known_account transfers @ upgraded @ instantiated @ proofs @ slashed @
          offline @ sudo @ updated)))))))))"

text \<open>
  The \<open>for\<close> loop over the blocks of one broadcast: alerts of a block are sent before the next block is
  read, so an error leaves the alerts of the earlier blocks sent.
\<close>

fun watch_blocks ::
  "'evs finders \<Rightarrow> accounts \<Rightarrow> 'evs client \<Rightarrow> block_ext list \<Rightarrow> alert list \<times> error failure option" where
  "watch_blocks f accounts cl [] = ([], None)"
| "watch_blocks f accounts cl (b # bs) =
     (case bind_res (block_events cl b) (events_of_block f accounts) of
        Inl e \<Rightarrow> ([], Some e)
      | Inr events \<Rightarrow> (case watch_blocks f accounts cl bs of (alerts, r) \<Rightarrow> (map Event events @ alerts, r)))"

text \<open>One round: what \<open>recv\<close> returned, with the client's answers during the round.  The accounts are the state.\<close>

fun events_step ::
  "'evs finders \<Rightarrow> accounts \<Rightarrow> 'evs client \<times> (recv_error + blocks_ext) \<Rightarrow> (accounts, alert, error failure) step_result" where
  "events_step f accounts (cl, Inl err) = (accounts, [], Some (Err (error_from (ForRecv err))))"
| "events_step f accounts (cl, Inr bx) =
     (case watch_blocks f accounts cl (bx_blocks bx) of (alerts, r) \<Rightarrow> (accounts, alerts, r))"

definition watch_events ::
  "(string \<Rightarrow> account_id option) \<Rightarrow> 'evs finders \<Rightarrow> account list \<Rightarrow>
   ('evs client \<times> (recv_error + blocks_ext)) list \<Rightarrow> (accounts, alert, error failure) step_result" where
  "watch_events from_str f accounts ins =
     (case account_mapped_name from_str Map.empty accounts of
        Inl e \<Rightarrow> (Map.empty, [], Some e)
      | Inr m \<Rightarrow> run_loop (events_step f) m ins)"

section \<open>Known accounts\<close>

text \<open>The configured account for an id: the later of two with the same id wins.\<close>

definition configured :: "(string \<Rightarrow> account_id option) \<Rightarrow> account list \<Rightarrow> account_id \<Rightarrow> account option" where
  "configured from_str as who = find (\<lambda>a. from_str (ac_address a) = Some who) (rev as)"

text \<open>
  What is due for each movement, given the lookup of accounts: a report that names the account,
  the direction as seen from it and the amount that moved.
\<close>

definition report :: "transfer_direction \<Rightarrow> transfer_type \<Rightarrow> balance \<Rightarrow> account \<Rightarrow> transfer_known_account_event" where
  "report dir ty amount a =
     \<lparr>tk_direction = dir, tk_transfer_type = ty, tk_name = ac_name a, tk_address = ac_address a, tk_amount = amount\<rparr>"

definition transfer_due :: "(account_id \<Rightarrow> account option) \<Rightarrow> balance_transfer \<Rightarrow> transfer_known_account_event list" where
  "transfer_due known t =
     (case (known (bt_from t), known (bt_to t)) of
        (Some sender, _) \<Rightarrow> [report Sender TransferTransfer (bt_amount t) sender]
      | (None, Some receiver) \<Rightarrow> [report Receiver TransferTransfer (bt_amount t) receiver]
      | (None, None) \<Rightarrow> [])"

definition deposit_due :: "(account_id \<Rightarrow> account option) \<Rightarrow> balance_deposit \<Rightarrow> transfer_known_account_event list" where
  "deposit_due known d =
     (case known (bd_who d) of Some a \<Rightarrow> [report Receiver TransferDeposit (bd_amount d) a] | None \<Rightarrow> [])"

definition withdraw_due :: "(account_id \<Rightarrow> account option) \<Rightarrow> balance_withdraw \<Rightarrow> transfer_known_account_event list" where
  "withdraw_due known w =
     (case known (bw_who w) of Some a \<Rightarrow> [report Sender TransferWithdraw (bw_amount w) a] | None \<Rightarrow> [])"

lemma filter_known_concat:
  assumes "\<And>e. known_transfer ops accounts e = (case due e of [] \<Rightarrow> None | r # _ \<Rightarrow> Some r)" and "\<And>e. length (due e) \<le> 1"
  shows "filter_known_account_transfers ops accounts es = concat (map due es)"
proof (induction es)
  case (Cons e es)
  have "due e = [] \<or> (\<exists>r. due e = [r])" using assms(2) [of e] by (cases "due e") auto
  with Cons assms(1) [of e] show ?case
    by (auto simp: filter_known_account_transfers_def List.map_filter_simps)
qed (simp add: filter_known_account_transfers_def List.map_filter_simps)

text \<open>What the contract of the trait says of the one-sided movements.\<close>

context transfer_event
begin

lemma known_deposit:
  "ev_transfer_type ops e = TransferDeposit \<Longrightarrow>
   known_transfer ops accounts e = map_option (report Receiver TransferDeposit (ev_amount ops e)) (Option.bind (ev_to ops e) accounts)"
  using from_iff [of e] by (auto simp: known_transfer_def report_def split: option.splits)

lemma known_withdraw:
  "ev_transfer_type ops e = TransferWithdraw \<Longrightarrow>
   known_transfer ops accounts e = map_option (report Sender TransferWithdraw (ev_amount ops e)) (Option.bind (ev_from ops e) accounts)"
  using to_iff [of e] by (auto simp: known_transfer_def report_def split: option.splits)

end

lemma filter_due:
  "filter_known_account_transfers balance_transfer_ops accounts ts = concat (map (transfer_due accounts) ts)"
  "filter_known_account_transfers balance_deposit_ops accounts ds = concat (map (deposit_due accounts) ds)"
  "filter_known_account_transfers balance_withdraw_ops accounts ws = concat (map (withdraw_due accounts) ws)"
proof (safe intro!: filter_known_concat)
  fix e
  show "known_transfer balance_transfer_ops accounts e = (case transfer_due accounts e of [] \<Rightarrow> None | r # _ \<Rightarrow> Some r)"
    by (auto simp: known_transfer_def transfer_due_def report_def balance_transfer_ops_def split: option.splits)
  show "length (transfer_due accounts e) \<le> 1" by (simp add: transfer_due_def split: option.splits)
next
  fix e
  show "known_transfer balance_deposit_ops accounts e = (case deposit_due accounts e of [] \<Rightarrow> None | r # _ \<Rightarrow> Some r)"
    by (subst bd.known_deposit) (auto simp: deposit_due_def balance_deposit_ops_def split: option.splits)
  show "length (deposit_due accounts e) \<le> 1" by (simp add: deposit_due_def split: option.splits)
next
  fix e
  show "known_transfer balance_withdraw_ops accounts e = (case withdraw_due accounts e of [] \<Rightarrow> None | r # _ \<Rightarrow> Some r)"
    by (subst bw.known_withdraw) (auto simp: withdraw_due_def balance_withdraw_ops_def split: option.splits)
  show "length (withdraw_due accounts e) \<le> 1" by (simp add: withdraw_due_def split: option.splits)
qed

lemma find_snoc:
  "find P (xs @ [a]) = (case find P xs of Some b \<Rightarrow> Some b | None \<Rightarrow> if P a then Some a else None)"
  by (induction xs) auto

lemma account_mapped_name_eq:
  "account_mapped_name from_str m as =
     (if list_all (\<lambda>a. from_str (ac_address a) \<noteq> None) as
      then Inr (\<lambda>id. case find (\<lambda>a. from_str (ac_address a) = Some id) (rev as) of
                        Some a \<Rightarrow> Some a | None \<Rightarrow> m id)
      else Inl (Panic ''Must be a valid SS58 address''))"
proof (induction as arbitrary: m)
  case (Cons a as)
  show ?case
  proof (cases "from_str (ac_address a)")
    case (Some id)
    have "(\<lambda>k. case find (\<lambda>a. from_str (ac_address a) = Some k) (rev (a # as)) of Some b \<Rightarrow> Some b | None \<Rightarrow> m k) =
      (\<lambda>k. case find (\<lambda>a. from_str (ac_address a) = Some k) (rev as) of Some b \<Rightarrow> Some b | None \<Rightarrow> (m(id \<mapsto> a)) k)"
      using Some by (intro ext) (auto simp: find_snoc split: option.splits)
    with Some show ?thesis by (simp add: Cons.IH expect_def del: rev.simps fun_upd_apply)
  qed (simp add: expect_def)
qed simp

lemma account_lookup:
  "account_mapped_name from_str Map.empty as =
     (if list_all (\<lambda>a. from_str (ac_address a) \<noteq> None) as then Inr (configured from_str as)
      else Inl (Panic ''Must be a valid SS58 address''))"
proof -
  have "(\<lambda>who. case configured from_str as who of Some a \<Rightarrow> Some a | None \<Rightarrow> None) = configured from_str as"
    by (auto split: option.splits)
  then show ?thesis by (simp add: account_mapped_name_eq flip: configured_def)
qed

section \<open>Runs\<close>

definition block_report :: "'evs finders \<Rightarrow> accounts \<Rightarrow> 'evs client \<Rightarrow> block_ext \<Rightarrow> event list result" where
  "block_report f accounts cl b = bind_res (block_events cl b) (events_of_block f accounts)"

definition readable :: "'a result \<Rightarrow> bool" where
  "readable x \<longleftrightarrow> (\<exists>a. x = Inr a)"

lemma watch_blocks_readable:
  "list_all (\<lambda>b. readable (block_report f accounts cl b)) bs \<Longrightarrow>
   watch_blocks f accounts cl bs = (concat (map (\<lambda>b. map Event (projr (block_report f accounts cl b))) bs), None)"
  by (induction bs) (auto simp: block_report_def readable_def)

lemma watch_blocks_None:
  "watch_blocks f accounts cl bs = (alerts, None) \<Longrightarrow> list_all (\<lambda>b. readable (block_report f accounts cl b)) bs"
  by (induction bs arbitrary: alerts) (auto simp: block_report_def readable_def split: sum.splits prod.splits)

lemma watch_blocks_ok:
  "watch_blocks f accounts cl bs = (alerts, None) \<longleftrightarrow>
     list_all (\<lambda>b. readable (block_report f accounts cl b)) bs \<and>
     alerts = concat (map (\<lambda>b. map Event (projr (block_report f accounts cl b))) bs)"
  using watch_blocks_readable [of f accounts cl bs] watch_blocks_None [of f accounts cl bs] by force

fun round_ok :: "'evs finders \<Rightarrow> accounts \<Rightarrow> 'evs client \<times> (recv_error + blocks_ext) \<Rightarrow> bool" where
  "round_ok f accounts (cl, Inl e) \<longleftrightarrow> False"
| "round_ok f accounts (cl, Inr bx) \<longleftrightarrow> list_all (\<lambda>b. readable (block_report f accounts cl b)) (bx_blocks bx)"

fun round_alerts :: "'evs finders \<Rightarrow> accounts \<Rightarrow> 'evs client \<times> (recv_error + blocks_ext) \<Rightarrow> alert list" where
  "round_alerts f accounts (cl, Inl e) = []"
| "round_alerts f accounts (cl, Inr bx) =
     concat (map (\<lambda>b. map Event (projr (block_report f accounts cl b))) (bx_blocks bx))"

lemma events_step_ok:
  "events_step f m i = (m', os, None) \<longleftrightarrow> m' = m \<and> round_ok f m i \<and> os = round_alerts f m i"
proof (cases "(f, m, i)" rule: events_step.cases)
  case (2 _ _ cl bx)
  obtain os' r where "watch_blocks f m cl (bx_blocks bx) = (os', r)" by fastforce
  with 2 watch_blocks_ok [of f m cl "bx_blocks bx"] show ?thesis by auto
qed auto

lemma run_events_go:
  "list_all (round_ok f m) ins \<Longrightarrow> run_loop (events_step f) m ins = (m, concat (map (round_alerts f m) ins), None)"
proof (induction ins)
  case (Cons i ins)
  then have "events_step f m i = (m, round_alerts f m i, None)" by (simp add: events_step_ok)
  with Cons show ?case by (simp del: events_step.simps round_alerts.simps)
qed simp

lemma run_events_None:
  "run_loop (events_step f) m ins = (m', alerts, None) \<Longrightarrow> list_all (round_ok f m) ins"
proof (induction ins arbitrary: alerts)
  case (Cons i ins)
  obtain t o1 r where b: "events_step f m i = (t, o1, r)" by (metis prod_cases3)
  with Cons.prems have "r = None" by (cases r) (auto simp del: events_step.simps)
  with b have t: "t = m" "round_ok f m i" using events_step_ok [of f m i t o1] by auto
  from b \<open>r = None\<close> Cons.prems obtain o2 where "run_loop (events_step f) t ins = (m', o2, None)"
    by (auto simp del: events_step.simps split: prod.splits)
  with Cons.IH t show ?case by simp
qed simp

lemma run_events_ok:
  "run_loop (events_step f) m ins = (m', alerts, None) \<longleftrightarrow>
     m' = m \<and> list_all (round_ok f m) ins \<and> alerts = concat (map (round_alerts f m) ins)"
  using run_events_go [of f m ins] run_events_None [of f m ins] by force

lemma as_events_Inr:
  "as_events into finder evs = Inr es \<longleftrightarrow> (\<exists>xs. finder evs = map Inr xs \<and> es = map into xs)"
  by (auto simp: as_events_def res_Inr try_collect_Inr_iff)

text \<open>The errors that reading a block and the whole monitor can end with.\<close>

definition read_failure :: "error failure \<Rightarrow> bool" where
  "read_failure e \<longleftrightarrow> (\<exists>x. e = Err (Subxt x))"

definition watch_failure :: "error failure \<Rightarrow> bool" where
  "watch_failure e \<longleftrightarrow> (\<exists>x. e = Err (BroadRecvErr x)) \<or> read_failure e"

lemma bind_res_fail:
  "bind_res x k = Inl e \<Longrightarrow> (\<And>e. x = Inl e \<Longrightarrow> P e) \<Longrightarrow> (\<And>a e. k a = Inl e \<Longrightarrow> P e) \<Longrightarrow> P e"
  by (cases x) auto

lemma question_fail: "try_from ForSubxt x = Inl e \<Longrightarrow> read_failure e"
  by (cases x) (auto simp: question_def read_failure_def)

lemma as_events_fail: "as_events into finder evs = Inl e \<Longrightarrow> read_failure e"
  unfolding as_events_def by (erule bind_res_fail question_fail | simp)+

lemma known_transfers_fail: "known_transfers f accounts evs = Inl e \<Longrightarrow> read_failure e"
  unfolding known_transfers_def by (erule bind_res_fail question_fail | simp)+

lemma events_of_block_fail: "events_of_block f accounts evs = Inl e \<Longrightarrow> read_failure e"
  unfolding events_of_block_def by (erule bind_res_fail known_transfers_fail as_events_fail | simp)+

lemma block_report_fail: "block_report f accounts cl b = Inl e \<Longrightarrow> read_failure e"
  unfolding block_report_def block_events_def by (erule bind_res_fail question_fail events_of_block_fail)+

lemma watch_blocks_fail: "watch_blocks f accounts cl bs = (alerts, Some e) \<Longrightarrow> read_failure e"
proof (induction bs arbitrary: alerts)
  case (Cons b bs)
  then show ?case
    using block_report_fail [of f accounts cl b]
    by (auto simp: block_report_def split: sum.splits prod.splits)
qed simp

lemma watch_blocks_out: "watch_blocks f accounts cl bs = (alerts, r) \<Longrightarrow> set alerts \<subseteq> range Event"
  by (induction bs arbitrary: alerts) (fastforce split: sum.splits prod.splits)+

lemma events_step_out: "events_step f m i = (m', os, r) \<Longrightarrow> set os \<subseteq> range Event"
  by (cases "(f, m, i)" rule: events_step.cases) (auto split: prod.splits dest!: watch_blocks_out)

lemma events_step_fail: "events_step f m i = (m', os, Some e) \<Longrightarrow> watch_failure e"
  by (cases "(f, m, i)" rule: events_step.cases)
    (auto split: prod.splits dest!: watch_blocks_fail simp: watch_failure_def)

interpretation events: loop_contract "events_step f" "\<lambda>_. True" "\<lambda>_. True" "\<lambda>a. a \<in> range Event" watch_failure
  for f :: "'evs finders"
  by unfold_locales (auto dest: events_step_out events_step_fail)

section \<open>Examples\<close>

text \<open>A block with a transfer between two known accounts, a deposit to an unknown one and a slashed operator.\<close>

definition ex_finders :: "unit finders" where
  "ex_finders =
     \<lparr>find_balance_transfer = (\<lambda>_. [Inr \<lparr>bt_from = 1, bt_to = 2, bt_amount = 50\<rparr>, Inr \<lparr>bt_from = 9, bt_to = 2, bt_amount = 7\<rparr>]),
      find_balance_deposit = (\<lambda>_. [Inr \<lparr>bd_who = 9, bd_amount = 5\<rparr>]),
      find_balance_withdraw = (\<lambda>_. []), find_domain_runtime_upgraded = (\<lambda>_. []),
      find_domain_instantiated = (\<lambda>_. []), find_fraud_proof_processed = (\<lambda>_. []),
      find_operator_slashed = (\<lambda>_. [Inr \<lparr>os_operator_id = 3, os_reason = InvalidBundle 4\<rparr>]),
      find_operator_offline = (\<lambda>_. []), find_sudo = (\<lambda>_. []), find_code_updated = (\<lambda>_. [])\<rparr>"

definition ex_accounts :: accounts where
  "ex_accounts = [1 \<mapsto> \<lparr>ac_name = ''alice'', ac_address = ''A''\<rparr>, 2 \<mapsto> \<lparr>ac_name = ''bob'', ac_address = ''B''\<rparr>]"

definition ex_client :: "unit client" where
  "ex_client = \<lparr>cl_fetch = (\<lambda>_ _ _. Inr None), cl_block_body = (\<lambda>_. Inr None), cl_events = (\<lambda>h. if h = 0 then Inl ''gone'' else Inr ())\<rparr>"

definition ex_from_str :: "string \<Rightarrow> account_id option" where
  "ex_from_str s = (if s = ''A'' then Some 1 else if s = ''B'' then Some 2 else None)"

lemmas ex_events_eval =
  ex_finders_def ex_accounts_def ex_client_def ex_from_str_def known_transfers_def filter_known_account_transfers_def
  known_transfer_def List.map_filter_simps transfer_ops_defs events_of_block_def as_events_def event_from_defs
  block_events_def question_def expect_def

section \<open>Properties\<close>

text \<open>
  C30: The reports of a block's balance movements, from the configured accounts to the alert: a
  transfer is reported once, for its sender if that account is configured and otherwise for its
  receiver if that one is, a deposit for its receiver, a withdrawal for its sender, each
  with the name and address of that account in the configuration and with the amount
  moved; movements of other accounts are not reported.  There are reports exactly when all
  three kinds of events could be decoded.
\<close>

theorem known_transfers_reported:
  assumes "account_mapped_name from_str Map.empty as = Inr accounts"
  shows "known_transfers f accounts evs = Inr reports \<longleftrightarrow>
    (\<exists>ts ds ws. find_balance_transfer f evs = map Inr ts \<and> find_balance_deposit f evs = map Inr ds \<and>
       find_balance_withdraw f evs = map Inr ws \<and>
       reports = concat (map (transfer_due (configured from_str as)) ts) @
         concat (map (deposit_due (configured from_str as)) ds) @ concat (map (withdraw_due (configured from_str as)) ws))"
proof -
  have "accounts = configured from_str as"
    using assms account_lookup [of from_str as] by (auto split: if_splits)
  then show ?thesis by (auto simp: known_transfers_def res_Inr try_collect_Inr_iff filter_due)
qed

theorem known_transfers_reported_witness:
  "known_transfers ex_finders (configured ex_from_str [\<lparr>ac_name = ''alice'', ac_address = ''A''\<rparr>, \<lparr>ac_name = ''bob'', ac_address = ''B''\<rparr>]) () =
     Inr [\<lparr>tk_direction = Sender, tk_transfer_type = TransferTransfer, tk_name = ''alice'', tk_address = ''A'', tk_amount = 50\<rparr>,
          \<lparr>tk_direction = Receiver, tk_transfer_type = TransferTransfer, tk_name = ''bob'', tk_address = ''B'', tk_amount = 7\<rparr>]"
proof -
  let ?as = "[\<lparr>ac_name = ''alice'', ac_address = ''A''\<rparr>, \<lparr>ac_name = ''bob'', ac_address = ''B''\<rparr>]"
  have "account_mapped_name ex_from_str Map.empty ?as = Inr (configured ex_from_str ?as)"
    unfolding account_lookup by (simp add: ex_from_str_def)
  note spec = known_transfers_reported [OF this, THEN iffD2]
  show ?thesis
    by (rule spec, rule exI [of _ "[\<lparr>bt_from = 1, bt_to = 2, bt_amount = 50\<rparr>, \<lparr>bt_from = 9, bt_to = 2, bt_amount = 7\<rparr>]"],
        rule exI [of _ "[\<lparr>bd_who = 9, bd_amount = 5\<rparr>]"], rule exI [of _ "[]"])
      (simp add: ex_finders_def configured_def ex_from_str_def transfer_due_def deposit_due_def report_def)
qed

text \<open>
  No watched event of a block is lost or made up: the events produced for a block hold
  a domain, fraud-proof, operator or code event exactly when it is among the block's events, a
  sudo event exactly when there is one, and transfers exactly as reported for known accounts.
\<close>

theorem block_events_complete:
  assumes "events_of_block f accounts evs = Inr es"
  shows "{e. DomainRuntimeUpgraded e \<in> set es} = {e. Inr e \<in> set (find_domain_runtime_upgraded f evs)} \<and>
    {e. DomainInstantiated e \<in> set es} = {e. Inr e \<in> set (find_domain_instantiated f evs)} \<and>
    {e. FraudProofProcessed e \<in> set es} = {e. Inr e \<in> set (find_fraud_proof_processed f evs)} \<and>
    {e. OperatorSlashed e \<in> set es} = {e. Inr e \<in> set (find_operator_slashed f evs)} \<and>
    {e. OperatorOffline e \<in> set es} = {e. Inr e \<in> set (find_operator_offline f evs)} \<and>
    {e. CodeUpdated e \<in> set es} = {e. Inr e \<in> set (find_code_updated f evs)} \<and>
    (Sudo \<in> set es \<longleftrightarrow> find_sudo f evs \<noteq> []) \<and>
    {e. Transfer e \<in> set es} = set (projr (known_transfers f accounts evs))"
proof -
  from assms obtain ts us ins ps ss os sd cs where "known_transfers f accounts evs = Inr ts"
    "find_domain_runtime_upgraded f evs = map Inr us" "find_domain_instantiated f evs = map Inr ins"
    "find_fraud_proof_processed f evs = map Inr ps" "find_operator_slashed f evs = map Inr ss"
    "find_operator_offline f evs = map Inr os" "find_sudo f evs = map Inr sd" "find_code_updated f evs = map Inr cs"
    and "es = map Transfer ts @ map DomainRuntimeUpgraded us @ map DomainInstantiated ins @ map FraudProofProcessed ps @
      map OperatorSlashed ss @ map OperatorOffline os @ map (\<lambda>_. Sudo) sd @ map CodeUpdated cs"
    unfolding events_of_block_def bind_res_eq_Inr as_events_Inr event_from_defs by blast
  then show ?thesis by (auto simp: image_iff ex_in_conv)
qed

theorem block_events_complete_witness:
  "\<exists>es. events_of_block ex_finders ex_accounts () = Inr es \<and>
     {e. OperatorSlashed e \<in> set es} = {\<lparr>os_operator_id = 3, os_reason = InvalidBundle 4\<rparr>} \<and> Sudo \<notin> set es"
proof -
  obtain es where r: "events_of_block ex_finders ex_accounts () = Inr es"
    by (simp add: ex_events_eval)
  from block_events_complete [OF r] r show ?thesis by (simp add: ex_finders_def)
qed

text \<open>Every transfer that is reported names a configured account.\<close>

definition names_one_of :: "account list \<Rightarrow> transfer_known_account_event \<Rightarrow> bool" where
  "names_one_of as r \<longleftrightarrow> (\<exists>a\<in>set as. tk_name r = ac_name a \<and> tk_address r = ac_address a)"

lemma configured_named: "configured from_str as who = Some a \<Longrightarrow> names_one_of as (report dir ty amount a)"
proof -
  assume "configured from_str as who = Some a"
  then obtain i where "i < length (rev as)" "rev as ! i = a" by (auto simp: configured_def find_Some_iff)
  then have "a \<in> set as" by (metis nth_mem set_rev)
  then show ?thesis by (auto simp: names_one_of_def report_def)
qed

lemma due_named:
  "r \<in> set (transfer_due (configured from_str as) t) \<Longrightarrow> names_one_of as r"
  "r \<in> set (deposit_due (configured from_str as) d) \<Longrightarrow> names_one_of as r"
  "r \<in> set (withdraw_due (configured from_str as) w) \<Longrightarrow> names_one_of as r"
  by (auto simp: transfer_due_def deposit_due_def withdraw_due_def configured_named split: option.splits)

lemma block_report_named:
  assumes "block_report f (configured from_str as) cl b = Inr es" and "Transfer x \<in> set es"
  shows "names_one_of as x"
proof -
  from assms(1) obtain evs where es: "events_of_block f (configured from_str as) evs = Inr es"
    by (auto simp: block_report_def bind_res_eq_Inr)
  then obtain rs where rs: "known_transfers f (configured from_str as) evs = Inr rs"
    by (auto simp: events_of_block_def bind_res_eq_Inr)
  with block_events_complete [OF es] assms(2) have "x \<in> set rs" by auto
  moreover obtain ts ds ws where "rs = concat (map (transfer_due (configured from_str as)) ts) @
      concat (map (deposit_due (configured from_str as)) ds) @ concat (map (withdraw_due (configured from_str as)) ws)"
    using rs unfolding known_transfers_def res_Inr filter_due by blast
  ultimately show ?thesis by (auto dest: due_named)
qed


text \<open>
  Once started, the event monitor never panics: it ends only with an error of the broadcast
  channel or of the node, and everything it has sent are event alerts.
\<close>

theorem event_watch_ends:
  assumes "list_all (\<lambda>a. from_str (ac_address a) \<noteq> None) accounts"
    and "watch_events from_str f accounts ins = (m, alerts, r)"
  shows "set alerts \<subseteq> range Event \<and> pred_option watch_failure r"
proof -
  from assms obtain m0 where "run_loop (events_step f) m0 ins = (m, alerts, r)"
    by (auto simp: watch_events_def account_mapped_name_eq)
  from events.run_contract [OF _ _ this] show ?thesis by (auto simp: list_all_iff)
qed

theorem event_watch_ends_witness:
  "\<exists>m alerts r. watch_events ex_from_str ex_finders [\<lparr>ac_name = ''alice'', ac_address = ''A''\<rparr>]
     [(ex_client, Inr \<lparr>bx_blocks = [\<lparr>be_number = 1, be_hash = 0, be_parent_hash = 0, be_state_root = 0, be_extrinsics_root = 0\<rparr>],
        bx_maybe_reorg_data = None\<rparr>)] = (m, alerts, Some r) \<and> watch_failure r"
proof -
  let ?as = "[\<lparr>ac_name = ''alice'', ac_address = ''A''\<rparr>]"
  let ?ins = "[(ex_client, Inr \<lparr>bx_blocks = [\<lparr>be_number = 1, be_hash = 0, be_parent_hash = 0, be_state_root = 0, be_extrinsics_root = 0\<rparr>],
        bx_maybe_reorg_data = None\<rparr>)]"
  obtain m alerts r where run: "watch_events ex_from_str ex_finders ?as ?ins = (m, alerts, Some r)"
    by (simp add: watch_events_def ex_events_eval)
  have "list_all (\<lambda>a. ex_from_str (ac_address a) \<noteq> None) ?as" by (simp add: ex_from_str_def)
  from event_watch_ends [OF this run] run show ?thesis by auto
qed

end
