(* ===== verification/Md_Format.thy ===== *)
theory Md_Format
  imports Alerts
begin

text \<open>
  The messages (\<^verbatim>\<open>alerter/src/md_format.rs\<close>): every alert is turned into a Markdown text.

  What other crates print is a field of \<open>format_env\<close>: durations (humantime), hexadecimal and percent
  encoding, the display of a hash, and the decimals of rust_decimal, whose construction from
  an integer and whose division can panic (\<open>None\<close>).
\<close>

record 'dec format_env =
  format_duration :: "duration \<Rightarrow> string"
  hex_encode :: "h256 \<Rightarrow> string"
  urlencode :: "string \<Rightarrow> string"
  display_hash :: "h256 \<Rightarrow> string"
  decimal_from :: "u128 \<Rightarrow> 'dec option"
  decimal_div :: "'dec \<Rightarrow> 'dec \<Rightarrow> 'dec option"
  display_decimal :: "'dec \<Rightarrow> string"

record format_config =
  fc_rpc_url :: string
  fc_token_name :: string
  fc_token_decimals :: u8

definition NL :: string where
  "NL = [CHR 0x0A]"

text \<open>\<open>{:?}\<close> of a string: in quotes, with quotes, backslashes and line controls escaped.\<close>

fun debug_char :: "char \<Rightarrow> string" where
  "debug_char c =
     (if c = CHR 0x22 then [CHR 0x5C, CHR 0x22]
      else if c = CHR 0x5C then [CHR 0x5C, CHR 0x5C]
      else if c = CHR 0x0A then [CHR 0x5C, CHR ''n'']
      else if c = CHR 0x0D then [CHR 0x5C, CHR ''r'']
      else if c = CHR 0x09 then [CHR 0x5C, CHR ''t'']
      else [c])"

definition debug_str :: "string \<Rightarrow> string" where
  "debug_str s = [CHR 0x22] @ concat (map debug_char s) @ [CHR 0x22]"

fun join :: "string \<Rightarrow> string list \<Rightarrow> string" where
  "join sep [] = []"
| "join sep [x] = x"
| "join sep (x # xs) = x @ sep @ join sep xs"

fun debug_direction :: "transfer_direction \<Rightarrow> string" where
  "debug_direction Sender = ''Sender''"
| "debug_direction Receiver = ''Receiver''"

fun debug_transfer_type :: "transfer_type \<Rightarrow> string" where
  "debug_transfer_type TransferTransfer = ''Transfer''"
| "debug_transfer_type TransferWithdraw = ''Withdraw''"
| "debug_transfer_type TransferDeposit = ''Deposit''"

section \<open>Parts of messages\<close>

definition format_hash_and_number :: "'dec format_env \<Rightarrow> format_config \<Rightarrow> hash_and_number \<Rightarrow> string" where
  "format_hash_and_number env cfg hn =
     (let link = ''https://polkadot.js.org/apps/?rpc='' @ urlencode env (fc_rpc_url cfg) @
                 ''#/explorer/query/0x'' @ hex_encode env (hn_hash hn)
      in ''['' @ display_hash env (hn_hash hn) @ '']('' @ link @ '') ('' @ show_word (hn_number hn) @ '')'')"

definition format_hash_and_number_list :: "'dec format_env \<Rightarrow> format_config \<Rightarrow> hash_and_number list \<Rightarrow> string" where
  "format_hash_and_number_list env cfg hns = join NL (map (\<lambda>b. ''- '' @ format_hash_and_number env cfg b) hns)"

definition format_balance :: "'dec format_env \<Rightarrow> format_config \<Rightarrow> balance \<Rightarrow> string result" where
  "format_balance env cfg balance =
     bind_res (expect ''called `Option::unwrap()` on a `None` value'' (decimal_from env balance)) (\<lambda>amount.
     bind_res (expect ''attempt to multiply with overflow'' (checked_pow TYPE(128) 10 (unat (fc_token_decimals cfg)))) (\<lambda>scale.
     bind_res (expect ''called `Option::unwrap()` on a `None` value'' (decimal_from env scale)) (\<lambda>divisor.
     bind_res (expect ''Division failed'' (decimal_div env amount divisor)) (\<lambda>scaled.
     Inr (display_decimal env scaled @ '' '' @ fc_token_name cfg)))))"

section \<open>Messages\<close>

definition format_transfer :: "'dec format_env \<Rightarrow> format_config \<Rightarrow> transfer_known_account_event \<Rightarrow> string result" where
  "format_transfer env cfg t =
     bind_res (format_balance env cfg (tk_amount t)) (\<lambda>amount.
     Inr (''**Balance transfer**'' @ NL @ ''Direction: '' @ debug_direction (tk_direction t) @ NL @
          ''Type: '' @ debug_transfer_type (tk_transfer_type t) @ NL @
          ''Account: '' @ tk_name t @ ''['' @ tk_address t @ '']'' @ NL @ ''Amount:'' @ amount))"

definition slashed_reason_text :: "'dec format_env \<Rightarrow> slashed_reason \<Rightarrow> string" where
  "slashed_reason_text env r =
     (case r of
        InvalidBundle n \<Rightarrow> ''Invalid bundle at block: '' @ show_word n
      | BadExecutionReceipt h \<Rightarrow> ''Bad execution receipt: 0x'' @ debug_str (hex_encode env h))"

fun format_event :: "'dec format_env \<Rightarrow> format_config \<Rightarrow> event \<Rightarrow> string result" where
  "format_event env cfg (Transfer t) = format_transfer env cfg t"
| "format_event env cfg (DomainRuntimeUpgraded e) =
     Inr (''**Domain runtime upgraded**'' @ NL @ ''Runtime ID: '' @ show_word (dru_runtime_id e))"
| "format_event env cfg (DomainInstantiated e) =
     Inr (''**Domain instantiated**'' @ NL @ ''Domain ID: '' @ domain_id_debug (di_domain_id e))"
| "format_event env cfg (FraudProofProcessed e) =
     (case fp_new_head_receipt_number e of
        Some n \<Rightarrow>
          Inr (''**Fraud proof processed**'' @ NL @ ''Domain ID: '' @ domain_id_debug (fp_domain_id e) @ NL @
               ''New head receipt number: '' @ show_word n)
      | None \<Rightarrow> Inr (''**Fraud proof processed**'' @ NL @ ''Domain ID: '' @ domain_id_debug (fp_domain_id e)))"
| "format_event env cfg (OperatorSlashed e) =
     Inr (''**Operator slashed**'' @ NL @ ''Operator ID: '' @ show_word (os_operator_id e) @ NL @
          ''Reason: '' @ slashed_reason_text env (os_reason e))"
| "format_event env cfg (OperatorOffline e) =
     Inr (''**Operator offline**'' @ NL @ ''Operator ID: '' @ show_word (oo_operator_id e) @ NL @
          ''Domain ID: '' @ domain_id_debug (oo_domain_id e) @ NL @
          ''Submitted bundles: '' @ show_word (oo_submitted_bundles e) @ NL @
          ''Expected bundles: '' @ show_word (expected_bundles (oo_expectations e)) @ NL @
          ''Min required bundles: '' @ show_word (min_required_bundles (oo_expectations e)))"
| "format_event env cfg Sudo = Inr ''**Sudo event triggered**''"
| "format_event env cfg (CodeUpdated e) = Inr ''**Runtime code updated**''"

definition format_chain_recovery :: "'dec format_env \<Rightarrow> format_config \<Rightarrow> chain_recovery \<Rightarrow> string" where
  "format_chain_recovery env cfg r =
     ''**Block production resumed**'' @ NL @ ''Best block: '' @ format_hash_and_number env cfg (cr_best_block r) @ NL @
     ''Resumed after: '' @ format_duration env (cr_duration r)"

definition format_slow_slot :: "'dec format_env \<Rightarrow> slow_slot \<Rightarrow> string" where
  "format_slow_slot env s =
     ''**Slow slot**'' @ NL @ ''Slot: '' @ show_word (ss_slot s) @ NL @
     ''Previous slot: '' @ show_word (ss_previous_slot s) @ NL @
     ''Slot time: '' @ format_duration env (ss_slot_time s) @ NL @
     ''Threshold: '' @ format_duration env (ss_threshold s)"

definition format_avg_slow_slot :: "'dec format_env \<Rightarrow> avg_slow_slot \<Rightarrow> string" where
  "format_avg_slow_slot env s =
     ''**Average Slow slots**'' @ NL @ ''Slot: '' @ show_word (as_slot s) @ NL @
     ''Slot count: '' @ show_nat (as_slot_count s) @ NL @
     ''Avg Slot time: '' @ format_duration env (as_avg_slot_time s) @ NL @
     ''Threshold: '' @ format_duration env (as_threshold s)"

definition format_timekeeper_recovery :: "'dec format_env \<Rightarrow> timekeeper_recovery \<Rightarrow> string" where
  "format_timekeeper_recovery env r =
     ''**Timekeeper resumed**'' @ NL @ ''Slot: '' @ show_word (tr_slot r) @ NL @
     ''Resumed after: '' @ format_duration env (tr_duration r)"

definition format_reorg :: "'dec format_env \<Rightarrow> format_config \<Rightarrow> chain_reorg \<Rightarrow> string" where
  "format_reorg env cfg r =
     ''**Chain reorg**'' @ NL @
     ''Best block: '' @ format_hash_and_number env cfg (co_best_block r) @ NL @
     ''Common block: '' @ format_hash_and_number env cfg (co_common_block r) @ NL @
     ''Retracted blocks:'' @ NL @ format_hash_and_number_list env cfg (co_retracted r) @ NL @
     ''Enacted blocks:'' @ NL @ format_hash_and_number_list env cfg (co_enacted r) @ NL @
     ''Reorg Depth: '' @ show_nat (length (co_retracted r))"

definition format_chain_stall :: "'dec format_env \<Rightarrow> format_config \<Rightarrow> chain_stall \<Rightarrow> string" where
  "format_chain_stall env cfg s =
     ''**Block production stalled**'' @ NL @ ''Last block: '' @ format_hash_and_number env cfg (cs_last_block s) @ NL @
     ''Time since last block: '' @ format_duration env (cs_duration s)"

definition format_timekeeper_stall :: "'dec format_env \<Rightarrow> timekeeper_stall \<Rightarrow> string" where
  "format_timekeeper_stall env s =
     ''**Timekeeper stalled**'' @ NL @ ''Last slot: '' @ show_word (ts_last_slot s) @ NL @
     ''Time since last block: '' @ format_duration env (ts_duration s)"

fun format_alert :: "'dec format_env \<Rightarrow> format_config \<Rightarrow> alert \<Rightarrow> string result" where
  "format_alert env cfg (Event e) = format_event env cfg e"
| "format_alert env cfg (ChainStall s) = Inr (format_chain_stall env cfg s)"
| "format_alert env cfg (ChainRecovery r) = Inr (format_chain_recovery env cfg r)"
| "format_alert env cfg (Reorg r) = Inr (format_reorg env cfg r)"
| "format_alert env cfg (TimekeeperStall s) = Inr (format_timekeeper_stall env s)"
| "format_alert env cfg (TimekeeperRecovery r) = Inr (format_timekeeper_recovery env r)"
| "format_alert env cfg (SlowSlot s) = Inr (format_slow_slot env s)"
| "format_alert env cfg (AvgSlowSlots s) = Inr (format_avg_slow_slot env s)"

section \<open>Which messages can be printed\<close>

text \<open>The amounts whose scaled value rust_decimal can compute.\<close>

definition balance_printable :: "'dec format_env \<Rightarrow> format_config \<Rightarrow> balance \<Rightarrow> bool" where
  "balance_printable env cfg b \<longleftrightarrow> unat (fc_token_decimals cfg) \<le> 38 \<and>
     (case (decimal_from env b, decimal_from env (10 ^ unat (fc_token_decimals cfg))) of
        (Some x, Some y) \<Rightarrow> decimal_div env x y \<noteq> None | _ \<Rightarrow> False)"

text \<open>
  The documented range of rust_decimal: integers of 96 bits are exact, and a quotient of two
  integers exists unless the divisor is zero.
\<close>

definition decimal_96 :: "'dec format_env \<Rightarrow> bool" where
  "decimal_96 env \<longleftrightarrow>
     (\<forall>n. unat n < 2 ^ 96 \<longrightarrow> decimal_from env n \<noteq> None) \<and>
     (\<forall>m n x y. decimal_from env m = Some x \<longrightarrow> decimal_from env n = Some y \<longrightarrow> n \<noteq> 0 \<longrightarrow> decimal_div env x y \<noteq> None)"

lemma pow10_bound: "(10::nat) ^ n < 2 ^ 128 \<longleftrightarrow> n \<le> 38"
proof
  assume "n \<le> 38"
  then have "(10::nat) ^ n \<le> 10 ^ 38" by (rule power_increasing) simp
  then show "(10::nat) ^ n < 2 ^ 128" by simp
next
  assume l: "(10::nat) ^ n < 2 ^ 128"
  show "n \<le> 38"
  proof (rule ccontr)
    assume "\<not> n \<le> 38"
    then have "(10::nat) ^ 39 \<le> 10 ^ n" by (intro power_increasing) auto
    with l show False by simp
  qed
qed

lemma checked_pow10: "checked_pow TYPE(128) 10 n = (if n \<le> 38 then Some (10 ^ n) else None)"
  unfolding checked_pow_def by (simp add: pow10_bound [simplified])

lemma format_balance_iff: "isl (format_balance env cfg b) \<longleftrightarrow> \<not> balance_printable env cfg b"
  by (auto simp: format_balance_def balance_printable_def checked_pow10 expect_def split: option.splits)

lemma format_transfer_iff: "isl (format_transfer env cfg t) \<longleftrightarrow> \<not> balance_printable env cfg (tk_amount t)"
  unfolding format_transfer_def format_balance_iff [symmetric]
  by (cases "format_balance env cfg (tk_amount t)") auto

lemma format_alert_isl:
  "isl (format_alert env cfg a) \<longleftrightarrow> (\<exists>t. a = Event (Transfer t) \<and> \<not> balance_printable env cfg (tk_amount t))"
proof (cases a)
  case (Event e)
  then show ?thesis by (cases e) (auto simp: format_transfer_iff split: option.splits)
qed auto

lemma unat_pow10: "n \<le> 38 \<Longrightarrow> unat (10 ^ n :: u128) = 10 ^ n"
proof -
  assume "n \<le> 38"
  then have "(10::nat) ^ n < 2 ^ 128" by (simp only: pow10_bound)
  then have "unat (of_nat (10 ^ n) :: u128) = 10 ^ n" unfolding unat_of_nat by (simp add: take_bit_nat_eq_self)
  then show ?thesis by simp
qed

section \<open>The layout of messages\<close>

fun split_nl :: "string \<Rightarrow> string list" where
  "split_nl [] = [[]]"
| "split_nl (c # cs) =
     (if c = CHR 0x0A then [] # split_nl cs
      else (case split_nl cs of [] \<Rightarrow> [[c]] | l # ls \<Rightarrow> (c # l) # ls))"

text \<open>Texts without a line break, and an environment that prints hashes, links and durations so.\<close>

definition one_line :: "string \<Rightarrow> bool" where
  "one_line s \<longleftrightarrow> CHR 0x0A \<notin> set s"

definition prints_one_line :: "'dec format_env \<Rightarrow> bool" where
  "prints_one_line env \<longleftrightarrow>
     (\<forall>h. one_line (hex_encode env h)) \<and> (\<forall>h. one_line (display_hash env h)) \<and> (\<forall>u. one_line (urlencode env u)) \<and>
     (\<forall>d. one_line (format_duration env d))"

text \<open>The lines of a list of blocks: one per block, and a single empty one when there is none.\<close>

definition block_lines :: "'dec format_env \<Rightarrow> format_config \<Rightarrow> hash_and_number list \<Rightarrow> string list" where
  "block_lines env cfg hns =
     (if hns = [] then [[]] else map (\<lambda>b. ''- '' @ format_hash_and_number env cfg b) hns)"

lemma one_line_simps [simp]:
  "one_line []" "one_line (c # cs) \<longleftrightarrow> c \<noteq> CHR 0x0A \<and> one_line cs" "one_line (xs @ ys) \<longleftrightarrow> one_line xs \<and> one_line ys"
  by (auto simp: one_line_def)

lemma split_nl_neq_Nil: "split_nl s \<noteq> []"
  by (cases s) (auto split: list.splits)

lemma split_nl_line: "one_line s \<Longrightarrow> split_nl s = [s]"
  by (induction s) auto

lemma split_nl_append: "one_line s \<Longrightarrow> split_nl (s @ NL @ t) = s # split_nl t"
  by (induction s) (auto simp: NL_def)

lemma digit_char_not_nl: "d < 10 \<Longrightarrow> digit_char d \<noteq> CHR 0x0A"
proof
  assume "d < 10" "digit_char d = CHR 0x0A"
  then have "of_char (digit_char d) = (10::nat)" by simp
  with \<open>d < 10\<close> show False by simp
qed

lemma one_line_show_nat [simp]: "one_line (show_nat n)"
  by (induction n rule: show_nat.induct) (subst show_nat.simps, auto simp: digit_char_not_nl)

lemma one_line_show_word [simp]: "one_line (show_word w)"
  by (simp add: show_word_def)

lemma one_line_block [simp]: "prints_one_line env \<Longrightarrow> one_line (format_hash_and_number env cfg b)"
  by (simp add: format_hash_and_number_def prints_one_line_def)

lemma split_nl_join:
  "list_all one_line xs \<Longrightarrow> split_nl (join NL xs @ NL @ t) = (if xs = [] then [[]] else xs) @ split_nl t"
proof (induction NL xs rule: join.induct)
  case (3 x y ys)
  then show ?case using split_nl_append [of x "join NL (y # ys) @ NL @ t"] by simp
qed (use split_nl_append [of "[]"] in \<open>auto simp: split_nl_append\<close>)

lemma split_nl_blocks:
  "prints_one_line env \<Longrightarrow>
   split_nl (format_hash_and_number_list env cfg hns @ NL @ t) = block_lines env cfg hns @ split_nl t"
  unfolding format_hash_and_number_list_def
  by (subst split_nl_join) (auto simp: block_lines_def list_all_iff)

text \<open>
  A reorg message line by line: a title, the best and the common block, then one line for each
  retracted block and one for each enacted block in order, and the number of retracted blocks.
\<close>

lemma split_nl_reorg:
  assumes "prints_one_line env"
  shows "split_nl (format_reorg env cfg r) =
    [''**Chain reorg**'', ''Best block: '' @ format_hash_and_number env cfg (co_best_block r),
     ''Common block: '' @ format_hash_and_number env cfg (co_common_block r), ''Retracted blocks:''] @
    block_lines env cfg (co_retracted r) @ [''Enacted blocks:''] @ block_lines env cfg (co_enacted r) @
    [''Reorg Depth: '' @ show_nat (length (co_retracted r))]"
proof -
  have line: "split_nl (x @ y @ NL @ t) = (x @ y) # split_nl t" if "one_line (x @ y)" for x y t
    using split_nl_append [OF that] by simp
  show ?thesis
    unfolding format_reorg_def
    by (simp add: split_nl_append line split_nl_blocks split_nl_line assms del: append_assoc append_Cons)
qed

text \<open>A simple environment that prints in decimal, for the examples.\<close>

definition ex_format_env :: "nat format_env" where
  "ex_format_env =
     \<lparr>format_duration = (\<lambda>d. show_nat (d div NANOS_PER_SEC) @ ''s''), hex_encode = (\<lambda>h. show_word h),
      urlencode = (\<lambda>u. filter (\<lambda>c. c \<noteq> CHR 0x0A) u), display_hash = (\<lambda>h. ''0x'' @ show_word h),
      decimal_from = (\<lambda>n. if unat n < 2 ^ 96 then Some (unat n) else None),
      decimal_div = (\<lambda>x y. if y = 0 then None else Some (x div y)), display_decimal = show_nat\<rparr>"

definition ex_format_config :: format_config where
  "ex_format_config = \<lparr>fc_rpc_url = ''wss://node'', fc_token_name = ''AI3'', fc_token_decimals = 18\<rparr>"

lemma ex_decimal_96: "decimal_96 ex_format_env"
  by (auto simp: decimal_96_def ex_format_env_def unat_eq_zero split: if_splits)

lemma ex_prints_one_line: "prints_one_line ex_format_env"
  by (simp add: prints_one_line_def ex_format_env_def) (simp add: one_line_def)

section \<open>Properties\<close>

text \<open>
  C37: Only a transfer message can fail to be formatted, and it fails exactly when the amount cannot be
  scaled: more than 38 decimals overflow the power of ten, and otherwise rust_decimal cannot
  represent the amount, the power or the quotient.  Every other alert is always formatted.
\<close>

theorem format_alert_panics_iff:
  "isl (format_alert env cfg a) \<longleftrightarrow> (\<exists>t. a = Event (Transfer t) \<and> \<not> balance_printable env cfg (tk_amount t))"
  by (rule format_alert_isl)

text \<open>
  With the documented range of rust_decimal, every transfer of less than \<open>2^96\<close> units of a token
  with at most 28 decimals is formatted.
\<close>

theorem transfer_formats_in_range:
  assumes "decimal_96 env" and "unat (fc_token_decimals cfg) \<le> 28" and "unat (tk_amount t) < 2 ^ 96"
  shows "\<exists>msg. format_alert env cfg (Event (Transfer t)) = Inr msg"
proof -
  let ?n = "unat (fc_token_decimals cfg)"
  have "(10::nat) ^ ?n \<le> 10 ^ 28" using assms(2) by (rule power_increasing) simp
  then have "unat (10 ^ ?n :: u128) < 2 ^ 96" and nz: "(10 ^ ?n :: u128) \<noteq> 0"
    using assms(2) unat_pow10 [of ?n] by (auto simp: word_unat_eq_iff)
  with assms have "balance_printable env cfg (tk_amount t)"
    unfolding decimal_96_def balance_printable_def by (auto split: option.splits)
  then show ?thesis
    using format_transfer_iff [of env cfg t] by (cases "format_transfer env cfg t") auto
qed

theorem transfer_formats_in_range_witness:
  "\<exists>msg. format_alert ex_format_env ex_format_config (Event (Transfer
     \<lparr>tk_direction = Sender, tk_transfer_type = TransferTransfer, tk_name = ''alice'', tk_address = ''A'',
      tk_amount = 5000000000000000000\<rparr>)) = Inr msg"
  by (rule transfer_formats_in_range [OF ex_decimal_96]) (simp_all add: ex_format_config_def)

end
