(* ===== verification/Slack_Alerter.thy ===== *)
theory Slack_Alerter
  imports Md_Format Cli "HOL-Library.Sublist"
begin

unbundle bit_operations_syntax

text \<open>
  The Slack task (\<^verbatim>\<open>alerter/src/slack.rs\<close>): it loads the secret, opens a session and posts
  one message per alert.  The alerts themselves are in \<open>Alerts\<close>.

  The file system and the Slack API answer through arguments: \<open>secret_file\<close> holds what the
  metadata and the content of the secret file are, and every posted request is an output of the
  loop, since the outcome of a post is only logged.
\<close>

definition MAX_SLACK_API_RETRIES :: nat where
  "MAX_SLACK_API_RETRIES = 30"

section \<open>Text\<close>

text \<open>\<open>str::trim\<close>: the UTF-8 encodings of Unicode's white space are removed at both ends.\<close>

definition WHITESPACE :: "string list" where
  "WHITESPACE =
     map (\<lambda>n. [char_of n]) ([9..<14] @ [32::nat]) @
     [[CHR 0xC2, CHR 0x85], [CHR 0xC2, CHR 0xA0], [CHR 0xE1, CHR 0x9A, CHR 0x80]] @
     map (\<lambda>n. [CHR 0xE2, CHR 0x80, char_of n]) ([128..<139] @ [168, 169, 175::nat]) @
     [[CHR 0xE2, CHR 0x81, CHR 0x9F], [CHR 0xE3, CHR 0x80, CHR 0x80]]"

text \<open>Removing prefixes from a list of non-empty ones as long as there is one.\<close>

function strip_any :: "string list \<Rightarrow> string \<Rightarrow> string" where
  "strip_any ws s =
     (case find (\<lambda>w. w \<noteq> [] \<and> prefix w s) ws of None \<Rightarrow> s | Some w \<Rightarrow> strip_any ws (drop (length w) s))"
  by pat_completeness auto
termination
proof (relation "measure (\<lambda>(ws, s). length s)", goal_cases)
  case (2 ws s w)
  then have "w \<noteq> []" "prefix w s" by (auto simp: find_Some_iff)
  then show ?case by (cases s; cases w) (auto simp: prefix_def)
qed simp

declare strip_any.simps [simp del]

definition trim :: "string \<Rightarrow> string" where
  "trim s = rev (strip_any (map rev WHITESPACE) (rev (strip_any WHITESPACE s)))"

definition strip_prefix :: "string \<Rightarrow> string \<Rightarrow> string option" where
  "strip_prefix p s = (if prefix p s then Some (drop (length p) s) else None)"

section \<open>The secret\<close>

record slack_secret =
  token_value :: string
  token_team_id :: string

definition zeroize :: "slack_secret \<Rightarrow> slack_secret" where
  "zeroize s = s\<lparr>token_value := []\<rparr>"

record secret_file =
  sf_mode :: "string + u32"
  sf_content :: "string + string"

definition USER_READ_ONLY :: u32 where
  "USER_READ_ONLY = 256"

definition USER_READ_WRITE :: u32 where
  "USER_READ_WRITE = 384"

definition check_permissions :: "string \<Rightarrow> u32 \<Rightarrow> unit result" where
  "check_permissions path mode =
     (if mode AND 511 = USER_READ_ONLY \<or> mode AND 511 = USER_READ_WRITE then Inr ()
      else Inl (Panic (path @ '' must be readable only by the user running this process ('' @ show_word USER_READ_ONLY @
             '' or '' @ show_word USER_READ_WRITE @ ''), but it is '' @ show_word mode)))"

definition new_slack_secret :: "(string \<Rightarrow> secret_file) \<Rightarrow> string \<Rightarrow> string \<Rightarrow> slack_secret result" where
  "new_slack_secret fs path team_id =
     bind_res (try_from ForIo (sf_mode (fs path))) (\<lambda>mode.
     bind_res (check_permissions path mode) (\<lambda>_.
     bind_res (try_from ForIo (sf_content (fs path))) (\<lambda>content.
     if trim content = [] then Inl (Err (Config ''Slack Secret cannot be empty''))
     else Inr \<lparr>token_value = trim content, token_team_id = team_id\<rparr>)))"

section \<open>The alerter\<close>

record slack_alerter =
  sa_bot_name :: string
  sa_bot_icon :: string
  sa_channel_name :: string
  sa_secret :: slack_secret

definition channel_name_of :: "string \<Rightarrow> string" where
  "channel_name_of name = ''#'' @ (case strip_prefix ''#'' name of Some n \<Rightarrow> n | None \<Rightarrow> name)"

definition new_slack_alerter :: "(string \<Rightarrow> secret_file) \<Rightarrow> slack_config \<Rightarrow> slack_alerter result" where
  "new_slack_alerter fs cfg =
     bind_res (new_slack_secret fs (slack_secret_path cfg) (slack_team_id cfg)) (\<lambda>secret.
     Inr \<lparr>sa_bot_name = slack_bot_name cfg, sa_bot_icon = slack_bot_icon cfg,
          sa_channel_name = channel_name_of (slack_channel_name cfg), sa_secret = secret\<rparr>)"

record post_request =
  pr_channel :: string
  pr_markdown_blocks :: "string list"
  pr_icon_emoji :: string
  pr_username :: string
  pr_unfurl_links :: bool

text \<open>\<open>CARGO_PKG_VERSION\<close> is the version in \<^verbatim>\<open>alerter/Cargo.toml\<close>.\<close>

definition CARGO_PKG_VERSION :: string where
  "CARGO_PKG_VERSION = ''1.1.1''"

definition post_request_of :: "slack_alerter \<Rightarrow> string \<Rightarrow> post_request" where
  "post_request_of sa msg =
     \<lparr>pr_channel = sa_channel_name sa, pr_markdown_blocks = [msg], pr_icon_emoji = sa_bot_icon sa,
      pr_username = sa_bot_name sa @ ''('' @ CARGO_PKG_VERSION @ '')'', pr_unfurl_links = False\<rparr>"

text \<open>
  The Slack client sends the HTTP requests of one API call.  It is a library, created with rate
  control for every call: the argument \<open>http\<close> says for a number of retries and the answers Slack
  would give to the first, second and later requests of a call how many requests are sent and
  what the call returns.  The call itself, with its token and what Slack answered to its
  requests, is an output of the loop.
\<close>

datatype slack_answer = Accepted | RateLimited | Refused string

type_synonym slack_http = "nat \<Rightarrow> (nat \<Rightarrow> slack_answer) \<Rightarrow> nat \<times> (string + unit)"

record chat_post =
  cp_secret :: slack_secret
  cp_request :: post_request
  cp_answers :: "slack_answer list"

text \<open>One round: what \<open>recv\<close> returned (\<open>None\<close>: the channel is closed) and Slack's answers; the result
  of the call is only logged.\<close>

fun slack_step ::
  "slack_http \<Rightarrow> 'dec format_env \<Rightarrow> format_config \<Rightarrow> slack_alerter \<Rightarrow> alert option \<times> (nat \<Rightarrow> slack_answer) \<Rightarrow>
   (slack_alerter, chat_post, error failure) step_result" where
  "slack_step http env cfg sa (None, answers) = (sa, [], Some (Err (App ''Slack stream closed'')))"
| "slack_step http env cfg sa (Some alert, answers) =
     (case format_alert env cfg alert of
        Inl f \<Rightarrow> (sa, [], Some f)
      | Inr msg \<Rightarrow>
          (case http MAX_SLACK_API_RETRIES answers of (sent, result) \<Rightarrow>
             (sa, [\<lparr>cp_secret = sa_secret sa, cp_request = post_request_of sa msg, cp_answers = map answers [0..<sent]\<rparr>], None)))"

text \<open>
  \<open>connector\<close> is the outcome of building the HTTP connector, and \<open>auth\<close> that of the authentication
  test of a session, which depends on the number of retries and on the secret.
\<close>

definition run_slack ::
  "slack_http \<Rightarrow> 'dec format_env \<Rightarrow> format_config \<Rightarrow> string + unit \<Rightarrow> (nat \<Rightarrow> slack_secret \<Rightarrow> string + unit) \<Rightarrow> slack_alerter \<Rightarrow>
   (alert option \<times> (nat \<Rightarrow> slack_answer)) list \<Rightarrow> (slack_alerter, chat_post, error failure) step_result" where
  "run_slack http env cfg connector auth sa ins =
     (case bind_res (try_from ForIo connector) (\<lambda>_. try_from ForSlack (auth MAX_SLACK_API_RETRIES (sa_secret sa))) of
        Inl f \<Rightarrow> (sa, [], Some f)
      | Inr _ \<Rightarrow> run_loop (slack_step http env cfg) sa ins)"

text \<open>
  What is documented of the rate control: a request is repeated only when Slack has answered
  that the limit is reached, at most the given number of times, and the call succeeds when
  the last request is accepted.
\<close>

definition retry_law :: "slack_http \<Rightarrow> bool" where
  "retry_law http \<longleftrightarrow> (\<forall>retries answers sent result. http retries answers = (sent, result) \<longrightarrow>
     0 < sent \<and> sent \<le> Suc retries \<and> (\<forall>i < sent - 1. answers i = RateLimited) \<and>
     (answers (sent - 1) = RateLimited \<longrightarrow> sent = Suc retries) \<and>
     (result = Inr () \<longleftrightarrow> answers (sent - 1) = Accepted))"

section \<open>Lemmas\<close>

lemma mode_private:
  assumes "mode AND 511 = m" and "m = USER_READ_ONLY \<or> m = USER_READ_WRITE"
  shows "(mode::u32) AND 63 = 0 \<and> mode AND 256 = 256"
proof -
  have "mode AND 63 = (mode AND 511) AND 63" and "mode AND 256 = (mode AND 511) AND 256"
    by (simp_all add: and.assoc)
  with assms show ?thesis by (auto simp: USER_READ_ONLY_def USER_READ_WRITE_def)
qed

lemma strip_any_no_prefix: "w \<in> set ws \<Longrightarrow> w \<noteq> [] \<Longrightarrow> \<not> prefix w (strip_any ws s)"
proof (induction ws s rule: strip_any.induct)
  case (1 ws s)
  then show ?case by (subst strip_any.simps) (auto simp: find_None_iff split: option.splits)
qed

lemma strip_any_suffix: "\<exists>ps. set ps \<subseteq> set ws \<and> s = concat ps @ strip_any ws s"
proof (induction ws s rule: strip_any.induct)
  case (1 ws s)
  show ?case
  proof (cases "find (\<lambda>w. w \<noteq> [] \<and> prefix w s) ws")
    case (Some w)
    then have w: "w \<in> set ws" "s = w @ drop (length w) s" by (auto simp: find_Some_iff prefix_def)
    with 1 Some obtain ps where ps: "set ps \<subseteq> set ws" "drop (length w) s = concat ps @ strip_any ws (drop (length w) s)" by blast
    have "strip_any ws s = strip_any ws (drop (length w) s)" using Some by (simp add: strip_any.simps [of ws s])
    with w ps have "set (w # ps) \<subseteq> set ws \<and> s = concat (w # ps) @ strip_any ws s" by simp
    then show ?thesis by blast
  next
    case None
    then have "set [] \<subseteq> set ws \<and> s = concat [] @ strip_any ws s" by (simp add: strip_any.simps)
    then show ?thesis by blast
  qed
qed

text \<open>What is left of the end, and that only white space is cut off.\<close>

lemma trim_end: "\<exists>qs. set qs \<subseteq> set WHITESPACE \<and> strip_any WHITESPACE s = trim s @ concat qs"
proof -
  obtain qs where qs: "set qs \<subseteq> set (map rev WHITESPACE)"
    "rev (strip_any WHITESPACE s) = concat qs @ strip_any (map rev WHITESPACE) (rev (strip_any WHITESPACE s))"
    using strip_any_suffix by blast
  have "set (rev (map rev qs)) \<subseteq> set WHITESPACE" using qs(1) by (auto dest!: subsetD)
  moreover have "strip_any WHITESPACE s = trim s @ concat (rev (map rev qs))"
    using arg_cong [OF qs(2), of rev] by (simp add: trim_def rev_concat rev_map)
  ultimately show ?thesis by blast
qed

lemma trim_infix: "\<exists>ps qs. set ps \<subseteq> set WHITESPACE \<and> set qs \<subseteq> set WHITESPACE \<and> s = concat ps @ trim s @ concat qs"
  using strip_any_suffix [of WHITESPACE s] trim_end [of s] by metis

lemma whitespace_nonempty: "w \<in> set WHITESPACE \<Longrightarrow> w \<noteq> []"
  by (auto simp: WHITESPACE_def)

lemma trim_end_clean: "w \<in> set WHITESPACE \<Longrightarrow> \<not> suffix w (trim s)"
  using strip_any_no_prefix [of "rev w" "map rev WHITESPACE"] whitespace_nonempty
  by (auto simp: trim_def suffix_to_prefix)

lemma trim_start_clean:
  assumes "w \<in> set WHITESPACE"
  shows "\<not> prefix w (trim s)"
proof
  assume w: "prefix w (trim s)"
  obtain qs where "strip_any WHITESPACE s = trim s @ concat qs" using trim_end by blast
  with w have "prefix w (strip_any WHITESPACE s)" by (metis prefix_order.trans prefixI)
  with strip_any_no_prefix assms whitespace_nonempty show False by blast
qed

text \<open>The posts for a list of alerts.\<close>

definition posts_for :: "'dec format_env \<Rightarrow> format_config \<Rightarrow> slack_alerter \<Rightarrow> alert list \<Rightarrow> post_request list" where
  "posts_for env cfg sa alerts = map (\<lambda>a. post_request_of sa (projr (format_alert env cfg a))) alerts"

definition formats :: "'dec format_env \<Rightarrow> format_config \<Rightarrow> alert \<Rightarrow> bool" where
  "formats env cfg a \<longleftrightarrow> \<not> isl (format_alert env cfg a)"

text \<open>The call for an alert, and the calls of a run.\<close>

definition chat_post_for ::
  "slack_http \<Rightarrow> 'dec format_env \<Rightarrow> format_config \<Rightarrow> slack_alerter \<Rightarrow> alert \<Rightarrow> (nat \<Rightarrow> slack_answer) \<Rightarrow> chat_post" where
  "chat_post_for http env cfg sa a answers =
     \<lparr>cp_secret = sa_secret sa, cp_request = post_request_of sa (projr (format_alert env cfg a)),
      cp_answers = map answers [0..<fst (http MAX_SLACK_API_RETRIES answers)]\<rparr>"

lemma run_slack_posts:
  "list_all (formats env cfg) alerts \<Longrightarrow> length answers = length alerts \<Longrightarrow>
   run_loop (slack_step http env cfg) sa (zip (map Some alerts) answers) =
     (sa, map2 (chat_post_for http env cfg sa) alerts answers, None)"
proof (induction alerts arbitrary: answers)
  case (Cons a as)
  from Cons.prems(2) obtain r rs where "answers = r # rs" "length rs = length as" by (cases answers) auto
  with Cons show ?case
    by (cases "format_alert env cfg a") (auto simp: chat_post_for_def formats_def split: prod.splits)
qed simp

text \<open>Slack accepts a call exactly when the first answer other than the rate limit comes soon enough.\<close>

definition delivered :: "nat \<Rightarrow> (nat \<Rightarrow> slack_answer) \<Rightarrow> bool" where
  "delivered retries answers \<longleftrightarrow> (\<exists>k \<le> retries. answers k = Accepted \<and> (\<forall>i < k. answers i = RateLimited))"

lemma retry_delivers:
  assumes "retry_law http" and "http retries answers = (sent, result)"
  shows "sent \<le> Suc retries" and "count_list (map answers [0..<sent]) Accepted = (if delivered retries answers then 1 else 0)"
proof -
  note law = assms(1) [unfolded retry_law_def, rule_format, OF assms(2)]
  then obtain k where sent: "sent = Suc k" by (cases sent) auto
  with law have k: "k \<le> retries" "\<forall>i < k. answers i = RateLimited" "answers k = RateLimited \<longrightarrow> k = retries" by auto
  show "sent \<le> Suc retries" using law by blast
  have "count_list (map answers [0..<k]) Accepted = 0" using k(2) by (auto simp: count_list_0_iff)
  then have "count_list (map answers [0..<sent]) Accepted = (if answers k = Accepted then 1 else 0)"
    by (simp add: sent)
  moreover have "delivered retries answers \<longleftrightarrow> answers k = Accepted"
  proof
    assume "delivered retries answers"
    then obtain j where j: "j \<le> retries" "answers j = Accepted" "\<forall>i < j. answers i = RateLimited"
      by (auto simp: delivered_def)
    consider "j < k" | "j = k" | "k < j" by linarith
    then show "answers k = Accepted" using j k by cases auto
  qed (use k in \<open>auto simp: delivered_def\<close>)
  ultimately show "count_list (map answers [0..<sent]) Accepted = (if delivered retries answers then 1 else 0)" by simp
qed

definition call_ok :: "chat_post \<Rightarrow> (nat \<Rightarrow> slack_answer) \<Rightarrow> bool" where
  "call_ok c answers \<longleftrightarrow> length (cp_answers c) \<le> 31 \<and>
     count_list (cp_answers c) Accepted = (if delivered 30 answers then 1 else 0)"

lemma chat_post_delivers:
  assumes "retry_law http"
  shows "call_ok (chat_post_for http env cfg sa a answers) answers"
  using retry_delivers [OF assms, of MAX_SLACK_API_RETRIES answers "fst (http MAX_SLACK_API_RETRIES answers)"
      "snd (http MAX_SLACK_API_RETRIES answers)"]
  by (simp add: call_ok_def chat_post_for_def MAX_SLACK_API_RETRIES_def)

lemma map2_requests:
  "length answers = length alerts \<Longrightarrow>
   map cp_request (map2 (chat_post_for http env cfg sa) alerts answers) = posts_for env cfg sa alerts"
  by (induction alerts answers rule: list_induct2') (simp_all add: posts_for_def chat_post_for_def)

lemma slack_step_ok:
  "slack_step http env cfg sa (Some a, answers) = (sa', cs, None) \<longleftrightarrow>
     formats env cfg a \<and> sa' = sa \<and> cs = [chat_post_for http env cfg sa a answers]"
  by (auto simp: chat_post_for_def formats_def split: sum.splits prod.splits)

fun slack_input_ok :: "'dec format_env \<Rightarrow> format_config \<Rightarrow> alert option \<times> (nat \<Rightarrow> slack_answer) \<Rightarrow> bool" where
  "slack_input_ok env cfg (Some a, r) \<longleftrightarrow> formats env cfg a"
| "slack_input_ok env cfg (None, r) \<longleftrightarrow> True"

text \<open>A post goes to the configured channel under the bot's name, with one block and no link previews.\<close>

definition post_ok :: "slack_alerter \<Rightarrow> post_request \<Rightarrow> bool" where
  "post_ok sa p \<longleftrightarrow> pr_channel p = sa_channel_name sa \<and> pr_icon_emoji p = sa_bot_icon sa \<and>
     length (pr_markdown_blocks p) = 1 \<and> \<not> pr_unfurl_links p"

interpretation slack_loop: loop_contract "slack_step http env cfg" "\<lambda>s. s = sa" "slack_input_ok env cfg"
  "\<lambda>c. post_ok sa (cp_request c)" "\<lambda>f. f = Err (App ''Slack stream closed'')"
  for http :: slack_http and env :: "'dec format_env" and cfg :: format_config and sa :: slack_alerter
proof (unfold_locales, goal_cases)
  case (1 s i s' os r)
  then show ?case by (cases "(http, env, cfg, s, i)" rule: slack_step.cases) (auto split: sum.splits prod.splits)
next
  case (2 s i s' os r x)
  then show ?case
    by (cases "(http, env, cfg, s, i)" rule: slack_step.cases)
      (auto simp: post_ok_def post_request_of_def split: sum.splits prod.splits)
next
  case (3 s i s' os f)
  then show ?case
    by (cases "(http, env, cfg, s, i)" rule: slack_step.cases) (auto simp: formats_def split: sum.splits prod.splits)
qed

text \<open>A client that satisfies the law.\<close>

definition plain_http :: slack_http where
  "plain_http retries answers =
     (let k = length (takeWhile (\<lambda>i. answers i = RateLimited) [0..<retries])
      in (Suc k, if answers k = Accepted then Inr () else Inl ''not accepted''))"

lemma plain_http_law: "retry_law plain_http"
proof -
  have "\<forall>i < k. answers i = RateLimited" "k \<le> retries" "answers k = RateLimited \<longrightarrow> k = retries"
    if "k = length (takeWhile (\<lambda>i. answers i = RateLimited) [0..<retries])" for k retries and answers :: "nat \<Rightarrow> slack_answer"
  proof -
    let ?ks = "takeWhile (\<lambda>i. answers i = RateLimited) [0..<retries]"
    show le: "k \<le> retries" using length_takeWhile_le [of _ "[0..<retries]"] that by simp
    show "\<forall>i < k. answers i = RateLimited"
    proof (intro allI impI)
      fix i assume i: "i < k"
      with that le have "?ks ! i = i" by (simp add: takeWhile_nth)
      moreover have "?ks ! i \<in> set ?ks" using i that by simp
      ultimately show "answers i = RateLimited" by (metis set_takeWhileD)
    qed
    show "answers k = RateLimited \<longrightarrow> k = retries"
      using nth_length_takeWhile [of "\<lambda>i. answers i = RateLimited" "[0..<retries]"] le that by (cases "k < retries") auto
  qed
  note first = this [OF refl]
  show ?thesis
    unfolding retry_law_def plain_http_def Let_def
  proof (intro allI impI)
    fix retries and answers :: "nat \<Rightarrow> slack_answer" and sent result
    let ?k = "length (takeWhile (\<lambda>i. answers i = RateLimited) [0..<retries])"
    assume "(Suc ?k, if answers ?k = Accepted then Inr () else Inl ''not accepted'') = (sent, result)"
    then have r: "sent = Suc ?k" "result = (if answers ?k = Accepted then Inr () else Inl ''not accepted'')" by simp_all
    show "0 < sent \<and> sent \<le> Suc retries \<and> (\<forall>i < sent - 1. answers i = RateLimited) \<and>
        (answers (sent - 1) = RateLimited \<longrightarrow> sent = Suc retries) \<and> (result = Inr () \<longleftrightarrow> answers (sent - 1) = Accepted)"
      using first [of answers retries] unfolding r by simp
  qed
qed

definition ex_secret_fs :: "string \<Rightarrow> secret_file" where
  "ex_secret_fs path =
     (if path = ''/slack-secret'' then \<lparr>sf_mode = Inr 33152, sf_content = Inr (''xoxb'' @ NL)\<rparr>
      else \<lparr>sf_mode = Inl ''not found'', sf_content = Inl ''not found''\<rparr>)"

definition ex_alerter :: slack_alerter where
  "ex_alerter = \<lparr>sa_bot_name = ''bot'', sa_bot_icon = ''robot_face'', sa_channel_name = ''#alerts'',
     sa_secret = \<lparr>token_value = ''xoxb'', token_team_id = ''T''\<rparr>\<rparr>"

lemma ex_trim: "trim (''xoxb'' @ NL) = ''xoxb''"
  by code_simp

section \<open>Properties\<close>

text \<open>
  C27: A secret is loaded only from a file that its owner can read and that nobody else can read,
  write or execute; the token is the whole content of the file but for white space cut off at
  both ends, it neither starts nor ends with white space and is not empty, and it is bound to
  the configured team.
\<close>

theorem secret_is_private:
  assumes "new_slack_secret fs path team_id = Inr s"
  shows "\<exists>mode content ps qs. sf_mode (fs path) = Inr mode \<and> mode AND 63 = 0 \<and> mode AND 256 = 256 \<and>
    sf_content (fs path) = Inr content \<and> content = concat ps @ token_value s @ concat qs \<and>
    set ps \<subseteq> set WHITESPACE \<and> set qs \<subseteq> set WHITESPACE \<and> token_value s \<noteq> [] \<and>
    list_all (\<lambda>w. \<not> prefix w (token_value s) \<and> \<not> suffix w (token_value s)) WHITESPACE \<and> token_team_id s = team_id"
proof -
  from assms obtain mode content where m: "sf_mode (fs path) = Inr mode" "check_permissions path mode = Inr ()"
    and c: "sf_content (fs path) = Inr content" "trim content \<noteq> []"
    and s: "s = \<lparr>token_value = trim content, token_team_id = team_id\<rparr>"
    by (auto simp: new_slack_secret_def bind_res_eq_Inr question_def split: sum.splits if_splits)
  from m(2) have "mode AND 63 = 0 \<and> mode AND 256 = 256"
    using mode_private by (auto simp: check_permissions_def split: if_splits)
  moreover obtain ps qs where "set ps \<subseteq> set WHITESPACE" "set qs \<subseteq> set WHITESPACE" "content = concat ps @ trim content @ concat qs"
    using trim_infix by blast
  moreover have "list_all (\<lambda>w. \<not> prefix w (trim content) \<and> \<not> suffix w (trim content)) WHITESPACE"
    by (simp add: list_all_iff trim_start_clean trim_end_clean)
  ultimately show ?thesis using m(1) c s by auto
qed

theorem secret_is_private_witness:
  "\<exists>s. new_slack_secret ex_secret_fs ''/slack-secret'' ''T'' = Inr s \<and> token_value s = ''xoxb'' \<and>
     (\<exists>mode. sf_mode (ex_secret_fs ''/slack-secret'') = Inr mode \<and> mode AND 63 = 0)"
proof -
  have s: "new_slack_secret ex_secret_fs ''/slack-secret'' ''T'' = Inr \<lparr>token_value = ''xoxb'', token_team_id = ''T''\<rparr>"
    using ex_trim by (simp add: new_slack_secret_def ex_secret_fs_def question_def check_permissions_def USER_READ_WRITE_def)
  from secret_is_private [OF s] s show ?thesis by auto
qed

text \<open>
  C29: Once the session is open, the task makes one call for every alert, in order and with the
  loaded token, whatever Slack answers, and goes on waiting.  A call sends at most 31 requests:
  its message is accepted exactly once if Slack answers with at most 30 rate limits before it
  accepts, and otherwise (more rate limits, or a refusal) the message is never accepted.
\<close>

theorem every_alert_posted:
  assumes "retry_law http" and "auth MAX_SLACK_API_RETRIES (sa_secret sa) = Inr ()"
    and "list_all (formats env cfg) alerts" and "length answers = length alerts"
  shows "\<exists>calls. run_slack http env cfg (Inr ()) auth sa (zip (map Some alerts) answers) = (sa, calls, None) \<and>
    map cp_request calls = posts_for env cfg sa alerts \<and> list_all (\<lambda>c. cp_secret c = sa_secret sa) calls \<and>
    list_all2 (\<lambda>c ans. length (cp_answers c) \<le> 31 \<and>
        count_list (cp_answers c) Accepted =
          (if \<exists>k \<le> 30. ans k = Accepted \<and> (\<forall>i < k. ans i = RateLimited) then 1 else 0)) calls answers"
proof -
  let ?calls = "map2 (chat_post_for http env cfg sa) alerts answers"
  have "run_slack http env cfg (Inr ()) auth sa (zip (map Some alerts) answers) = (sa, ?calls, None)"
    using assms(2) run_slack_posts [OF assms(3,4)] by (simp add: run_slack_def question_def)
  moreover have "list_all (\<lambda>c. cp_secret c = sa_secret sa) ?calls" by (auto simp: list_all_iff chat_post_for_def)
  moreover have "list_all2 call_ok ?calls answers"
    using assms(4) by (simp add: list_all2_conv_all_nth chat_post_delivers [OF assms(1)])
  ultimately show ?thesis using map2_requests [OF assms(4)] unfolding call_ok_def delivered_def by blast
qed

text \<open>The first message is limited twice and then accepted, the second is refused.\<close>

theorem every_alert_posted_witness:
  "\<exists>a b. loop_out (run_slack plain_http ex_format_env ex_format_config (Inr ()) (\<lambda>_ _. Inr ()) ex_alerter
     (zip (map Some [TimekeeperStall \<lparr>ts_last_slot = 5, ts_duration = 7\<rparr>, Event Sudo])
        [\<lambda>i. if i < 2 then RateLimited else Accepted, \<lambda>i. Refused ''channel_not_found''])) = [a, b] \<and>
     count_list (cp_answers a) Accepted = 1 \<and> count_list (cp_answers b) Accepted = 0"
proof -
  define alerts where "alerts = [TimekeeperStall \<lparr>ts_last_slot = 5, ts_duration = 7\<rparr>, Event Sudo]"
  define twice where "twice = (\<lambda>i::nat. if i < 2 then RateLimited else Accepted)"
  define refusal where "refusal = (\<lambda>i::nat. Refused ''channel_not_found'')"
  have ok: "list_all (formats ex_format_env ex_format_config) alerts" and len: "length [twice, refusal] = length alerts"
    by (simp_all add: formats_def alerts_def)
  have "\<exists>k \<le> 30. twice k = Accepted \<and> (\<forall>i < k. twice i = RateLimited)"
    by (rule exI [of _ 2]) (simp add: twice_def)
  moreover have "\<not> (\<exists>k \<le> 30. refusal k = Accepted \<and> (\<forall>i < k. refusal i = RateLimited))" by (simp add: refusal_def)
  ultimately have "\<exists>a b. loop_out (run_slack plain_http ex_format_env ex_format_config (Inr ()) (\<lambda>_ _. Inr ()) ex_alerter
     (zip (map Some alerts) [twice, refusal])) = [a, b] \<and>
     count_list (cp_answers a) Accepted = 1 \<and> count_list (cp_answers b) Accepted = 0"
    using every_alert_posted [OF plain_http_law _ ok len, of "\<lambda>_ _. Inr ()" ex_alerter, OF refl]
    by (auto simp: list_all2_Cons2)
  then show ?thesis by (simp only: alerts_def twice_def refusal_def)
qed

text \<open>
  The Slack task ends only when the connector or the authentication fails, or when the alert
  channel is closed; every request it makes goes to the configured channel.
\<close>

theorem slack_task_ends:
  assumes "list_all (slack_input_ok env cfg) ins" and "run_slack http env cfg connector auth sa ins = (sa', calls, r)"
  shows "list_all (\<lambda>c. post_ok sa (cp_request c)) calls \<and>
    pred_option (\<lambda>f. (\<exists>e. f = Err (Io e) \<and> connector = Inl e) \<or> (\<exists>e. f = Err (Slack e) \<and> auth MAX_SLACK_API_RETRIES (sa_secret sa) = Inl e) \<or>
      f = Err (App ''Slack stream closed'')) r"
proof (cases "bind_res (try_from ForIo connector) (\<lambda>_. try_from ForSlack (auth MAX_SLACK_API_RETRIES (sa_secret sa)))")
  case (Inl f)
  with assms(2) show ?thesis
    by (cases connector; cases "auth MAX_SLACK_API_RETRIES (sa_secret sa)") (auto simp: run_slack_def question_def)
next
  case (Inr _)
  with assms(2) have "run_loop (slack_step http env cfg) sa ins = (sa', calls, r)" by (simp add: run_slack_def)
  from slack_loop.run_contract [OF _ assms(1) this, of sa] show ?thesis by (cases r) auto
qed

theorem slack_task_ends_witness:
  "loop_end (run_slack plain_http ex_format_env ex_format_config (Inr ()) (\<lambda>_ _. Inr ()) ex_alerter
     [(Some (Event Sudo), \<lambda>_. Accepted), (None, \<lambda>_. Accepted)]) = Some (Err (App ''Slack stream closed''))"
proof -
  let ?ins = "[(Some (Event Sudo), \<lambda>_. Accepted), (None, \<lambda>_. Accepted)]"
  obtain sa' calls f where run:
    "run_slack plain_http ex_format_env ex_format_config (Inr ()) (\<lambda>_ _. Inr ()) ex_alerter ?ins = (sa', calls, Some f)"
    by (simp add: run_slack_def question_def plain_http_def Let_def)
  have "list_all (slack_input_ok ex_format_env ex_format_config) ?ins" by (simp add: formats_def)
  from slack_task_ends [OF this run] run show ?thesis by simp
qed

end
