(* ===== verification/Uptime.thy ===== *)
theory Uptime
  imports Errors
begin

text \<open>
  The health push (\<^verbatim>\<open>alerter/src/uptime.rs\<close>): on every tick of the interval one GET request to
  the configured url.  The requests are the outputs; the answer to a request is the input of
  the round, a transport error or an HTTP status.
\<close>

definition is_success :: "u16 \<Rightarrow> bool" where
  "is_success status \<longleftrightarrow> 200 \<le> status \<and> status < 300"

definition uptime_url :: "string \<Rightarrow> duration \<Rightarrow> string" where
  "uptime_url url every = url @ ''?status=up&msg=Ok&ping='' @ show_nat (as_millis every)"

text \<open>
  A round keeps no state; an answer that is not a success is only logged.
\<close>

fun uptime_step ::
  "string \<Rightarrow> duration \<Rightarrow> unit \<Rightarrow> string + u16 \<Rightarrow> (unit, string, error failure) step_result" where
  "uptime_step url every u (Inl err) = (u, [uptime_url url every], Some (Err (error_from (ForReqwest err))))"
| "uptime_step url every u (Inr status) =
     (if is_success status then (u, [uptime_url url every], None)
      else (u, [uptime_url url every], None))"

text \<open>\<open>client\<close> is the outcome of building the HTTP client.\<close>

definition push_uptime_status ::
  "unit option \<Rightarrow> string \<Rightarrow> duration \<Rightarrow> (string + u16) list \<Rightarrow> (unit, string, error failure) step_result" where
  "push_uptime_status client url every ins =
     (case client of
        None \<Rightarrow> ((), [], Some (Panic ''must be able to create a client''))
      | Some _ \<Rightarrow> run_loop (uptime_step url every) () ins)"

lemma uptime_url_eq: "uptime_url url every = url @ ''?status=up&msg=Ok&ping='' @ show_nat (every div 1000000)"
  by (simp add: uptime_url_def as_millis_def)

lemma run_uptime:
  "run_loop (uptime_step url every) () answers =
     ((), replicate (min (length answers) (Suc (length (takeWhile (\<lambda>a. \<not> isl a) answers)))) (uptime_url url every),
      map_option (\<lambda>a. Err (Reqwest (projl a))) (find isl answers))"
proof (induction answers)
  case (Cons a answers)
  then show ?case by (cases a) (auto split: prod.splits)
qed simp


end
