(* ===== verification/Main_Wiring.thy ===== *)
theory Main_Wiring
  imports Stall_Reorg Slots Events_Watch Slack_Alerter Uptime
begin

text \<open>
  The program (\<^verbatim>\<open>alerter/src/main.rs\<close>): the networks file, the start-up sequence that
  connects, looks up the configuration of the detected network and spawns the tasks, and the
  end of the program when the first task ends.  Files, connections and the TOML parser
  answer through the record \<open>main_env\<close>.
\<close>

section \<open>Logging\<close>

text \<open>
  The logger takes its filter from \<^verbatim>\<open>RUST_LOG\<close> and writes to the standard output.  A line is
  made of what the logging crate prints for the time, the level with its colours, and the
  target.
\<close>

datatype log_target = Stdout

record logger =
  lg_filter :: string
  lg_target :: log_target

record log_record =
  lr_level :: string
  lr_target :: string
  lr_args :: string

definition log_line :: "string \<Rightarrow> (string \<Rightarrow> string \<times> string) \<Rightarrow> log_record \<Rightarrow> string" where
  "log_line timestamp style r =
     (case style (lr_level r) of (begin_style, end_style) \<Rightarrow>
        ''['' @ timestamp @ '' '' @ begin_style @ lr_level r @ end_style @ '' '' @ lr_target r @ ''] '' @ lr_args r @ NL)"

definition init_logger :: "string option \<Rightarrow> logger" where
  "init_logger rust_log =
     \<lparr>lg_filter = (case rust_log of Some f \<Rightarrow> f | None \<Rightarrow> ''info''), lg_target = Stdout\<rparr>"

section \<open>Starting\<close>

record network_config =
  nc_accounts :: "account list"
  nc_bootnodes :: "multiaddr list"

record networks_config =
  ns_networks :: "string \<rightharpoonup> network_config"

record 'c main_env =
  me_rust_log :: "string option"
  me_connect_rpc :: "string \<Rightarrow> string + rpc"
  me_connect_client :: "string \<Rightarrow> string + 'c"
  me_read_file :: "string \<Rightarrow> string + string"
  me_toml :: "string \<Rightarrow> string + networks_config"
  me_swarm :: swarm_env
  me_secret_fs :: "string \<Rightarrow> secret_file"

definition load_networks_config :: "'c main_env \<Rightarrow> string \<Rightarrow> networks_config result" where
  "load_networks_config env path =
     bind_res (try_from ForIo (me_read_file env path)) (\<lambda>text. try_from ForToml (me_toml env text))"

text \<open>The tasks of the join set, each with what it is given.\<close>

datatype task =
    RuntimeUpdater
  | UptimePush string duration
  | ChainMonitor stall_and_reorg_config
  | EventMonitor "account list"
  | SlotMonitor slots_config
  | SlackTask slack_alerter format_config
  | BlockFollower
  | P2pTask network

record launched =
  la_logger :: logger
  la_ss58_format :: ss58_address_format
  la_tasks :: "task list"

text \<open>The tasks spawned after the runtime updater, in order.\<close>

definition spawn_tasks :: "config \<Rightarrow> network_details \<Rightarrow> network_config \<Rightarrow> network \<Rightarrow> slack_alerter \<Rightarrow> task list" where
  "spawn_tasks cli details nc nw sa =
     (case uptimekuma_url (uptimekuma cli) of
        Some url \<Rightarrow> [UptimePush url (uptimekuma_interval (uptimekuma cli))] | None \<Rightarrow> []) @
     [ChainMonitor (stall_and_reorg cli), EventMonitor (nc_accounts nc), SlotMonitor (slots_cfg cli),
      SlackTask sa \<lparr>fc_rpc_url = rpc_url cli, fc_token_name = nd_token_symbol details,
                    fc_token_decimals = nd_token_decimals details\<rparr>,
      BlockFollower, P2pTask nw]"

text \<open>What is connected, detected and loaded before the first task is spawned.\<close>

definition prepare :: "'c main_env \<Rightarrow> config \<Rightarrow> (network_details \<times> network_config \<times> network) result" where
  "prepare env cli =
     bind_res (new_from_url (me_connect_rpc env) (me_connect_client env) (rpc_url cli)) (\<lambda>subspace.
     bind_res (network_details_of (su_rpc subspace)) (\<lambda>details.
     bind_res (load_networks_config env (network_config_path cli)) (\<lambda>networks.
     bind_res (ok_or (Config (''Missing network config: '' @ nd_name details)) (ns_networks networks (nd_name details))) (\<lambda>nc.
     bind_res (new_network (me_swarm env) (nc_bootnodes nc) (nd_genesis_hash details)) (\<lambda>nw.
     Inr (details, nc, nw))))))"

text \<open>
  The tasks spawned so far and the outcome: the runtime updater is spawned before the Slack
  secret is loaded, so it is running when that fails; the join set is then dropped.
\<close>

definition start_up :: "'c main_env \<Rightarrow> config \<Rightarrow> task list \<times> launched result" where
  "start_up env cli =
     (case prepare env cli of
        Inl f \<Rightarrow> ([], Inl f)
      | Inr (details, nc, nw) \<Rightarrow>
          (case new_slack_alerter (me_secret_fs env) (slack cli) of
             Inl f \<Rightarrow> ([RuntimeUpdater], Inl f)
           | Inr sa \<Rightarrow>
               ([RuntimeUpdater] @ spawn_tasks cli details nc nw sa,
                Inr \<lparr>la_logger = init_logger (me_rust_log env), la_ss58_format = nd_ss58_format details,
                     la_tasks = [RuntimeUpdater] @ spawn_tasks cli details nc nw sa\<rparr>)))"

text \<open>
  What \<open>join_next\<close> yields for a task that has ended: its result, or a join error when it
  panicked.  A task that never returns is never joined.
\<close>

datatype joined = JoinErr string | Finished "error + unit"

fun joined_of :: "unit result \<Rightarrow> joined option" where
  "joined_of (Inl (Err e)) = Some (Finished (Inl e))"
| "joined_of (Inl (Panic msg)) = Some (JoinErr msg)"
| "joined_of (Inl Diverge) = None"
| "joined_of (Inr u) = Some (Finished (Inr u))"

fun main_result :: "joined option \<Rightarrow> unit result" where
  "main_result None = Inr ()"
| "main_result (Some (JoinErr e)) = Inl (Err (error_from (ForJoin e)))"
| "main_result (Some (Finished (Inl e))) = Inl (Err e)"
| "main_result (Some (Finished (Inr _))) = Inr ()"

definition main :: "'c main_env \<Rightarrow> config \<Rightarrow> joined option \<Rightarrow> unit result" where
  "main env cli first = bind_res (snd (start_up env cli)) (\<lambda>_. main_result first)"

section \<open>Properties\<close>

definition ex_rpc :: rpc where
  "ex_rpc = \<lparr>rpc_system_chain = Inr ''Autonomys Mainnet'',
     rpc_system_properties = Inr [''ss58Format'' \<mapsto> JsonU64 6094, ''tokenSymbol'' \<mapsto> JsonStr ''AI3'', ''tokenDecimals'' \<mapsto> JsonU64 18],
     rpc_block_hash = (\<lambda>n. Inr (Some 7))\<rparr>"

definition ex_main_env :: "(string \<rightharpoonup> network_config) \<Rightarrow> unit main_env" where
  "ex_main_env networks = \<lparr>me_rust_log = None, me_connect_rpc = (\<lambda>_. Inr ex_rpc), me_connect_client = (\<lambda>_. Inr ()), me_read_file = (\<lambda>p. Inr p),
     me_toml = (\<lambda>_. Inr \<lparr>ns_networks = networks\<rparr>), me_swarm = plain_swarm_env, me_secret_fs = ex_secret_fs\<rparr>"

definition ex_config :: config where
  "ex_config = \<lparr>rpc_url = ''wss://node'', network_config_path = ''/networks.toml'',
     uptimekuma = \<lparr>uptimekuma_url = None, uptimekuma_interval = 60000000000\<rparr>, stall_and_reorg = ex_watch_config,
     slack = \<lparr>slack_team_id = ''T'', slack_bot_name = ''bot'', slack_bot_icon = ''robot_face'', slack_channel_name = ''alerts'',
       slack_secret_path = ''/slack-secret''\<rparr>,
     slots_cfg = ex_slots_config\<rparr>"

lemma ex_details: "network_details_of ex_rpc = Inr \<lparr>nd_name = ''Autonomys Mainnet'', nd_ss58_format = Ss58Custom 6094,
    nd_token_symbol = ''AI3'', nd_token_decimals = 18, nd_genesis_hash = 7\<rparr>"
  by (simp add: network_details_of_def ex_rpc_def res_simps)

lemma ex_start:
  "\<exists>ts l. start_up (ex_main_env [''Autonomys Mainnet'' \<mapsto> \<lparr>nc_accounts = [], nc_bootnodes = []\<rparr>]) ex_config = (ts, Inr l)"
proof -
  have "\<exists>sa. new_slack_alerter ex_secret_fs (slack ex_config) = Inr sa"
    using ex_trim by (simp add: new_slack_alerter_def new_slack_secret_def ex_secret_fs_def ex_config_def question_def
        check_permissions_def USER_READ_WRITE_def)
  moreover have "\<exists>nw. new_network plain_swarm_env [] 7 = Inr nw"
    by (simp add: new_network_def build_swarm_def plain_swarm_env_def expect_def question_def)
  ultimately show ?thesis
    by (auto simp: start_up_def prepare_def new_from_url_def load_networks_config_def ex_main_env_def question_def ex_details ok_or_def)
qed

text \<open>A start-up that succeeds, with what it was made from.\<close>

lemma start_up_Inr:
  assumes "start_up env cli = (ts, Inr l)"
  obtains subspace details networks nc nw sa where
    "new_from_url (me_connect_rpc env) (me_connect_client env) (rpc_url cli) = Inr subspace"
    and "network_details_of (su_rpc subspace) = Inr details" and "load_networks_config env (network_config_path cli) = Inr networks"
    and "ns_networks networks (nd_name details) = Some nc" and "new_slack_alerter (me_secret_fs env) (slack cli) = Inr sa"
    and "new_network (me_swarm env) (nc_bootnodes nc) (nd_genesis_hash details) = Inr nw"
    and "ts = [RuntimeUpdater] @ spawn_tasks cli details nc nw sa"
  using assms unfolding start_up_def prepare_def
  by (auto simp: res_Inr split: sum.splits)

text \<open>
  A start-up that fails has started no monitor: at most the runtime updater was running, and
  \<open>main\<close> returns the failure.
\<close>

theorem failed_start_runs_nothing:
  assumes "start_up env cli = (ts, Inl f)"
  shows "set ts \<subseteq> {RuntimeUpdater} \<and> main env cli first = Inl f"
  using assms by (auto simp: start_up_def main_def split: sum.splits)

theorem failed_start_runs_nothing_witness:
  "fst (start_up (ex_main_env Map.empty) ex_config) = []"
proof -
  have "start_up (ex_main_env Map.empty) ex_config = ([], Inl (Err (Config (''Missing network config: '' @ ''Autonomys Mainnet''))))"
    by (simp add: start_up_def prepare_def new_from_url_def load_networks_config_def ex_main_env_def question_def ex_details ok_or_def)
  with failed_start_runs_nothing [OF this] show ?thesis by simp
qed

text \<open>
  When the networks file has no entry for the detected network, nothing is started and the
  program ends with a configuration error that names the network.
\<close>

theorem missing_network_stops:
  assumes "new_from_url (me_connect_rpc env) (me_connect_client env) (rpc_url cli) = Inr subspace"
    and "network_details_of (su_rpc subspace) = Inr details"
    and "load_networks_config env (network_config_path cli) = Inr networks" and "ns_networks networks (nd_name details) = None"
  shows "main env cli first = Inl (Err (Config (''Missing network config: '' @ nd_name details)))"
  using assms by (simp add: main_def start_up_def prepare_def ok_or_def)

theorem missing_network_stops_witness:
  "main (ex_main_env Map.empty) ex_config None = Inl (Err (Config (''Missing network config: '' @ ''Autonomys Mainnet'')))"
proof -
  let ?env = "ex_main_env Map.empty"
  have c: "new_from_url (me_connect_rpc ?env) (me_connect_client ?env) (rpc_url ex_config) = Inr \<lparr>su_rpc = ex_rpc, su_client = ()\<rparr>"
    by (simp add: new_from_url_def ex_main_env_def question_def)
  have d: "network_details_of (su_rpc (\<lparr>su_rpc = ex_rpc, su_client = ()\<rparr> :: (rpc, unit) subspace)) = Inr
      \<lparr>nd_name = ''Autonomys Mainnet'', nd_ss58_format = Ss58Custom 6094, nd_token_symbol = ''AI3'', nd_token_decimals = 18, nd_genesis_hash = 7\<rparr>"
    using ex_details by simp
  have n: "load_networks_config ?env (network_config_path ex_config) = Inr \<lparr>ns_networks = Map.empty\<rparr>"
    by (simp add: load_networks_config_def ex_main_env_def question_def)
  from missing_network_stops [OF c d n] show ?thesis by simp
qed

text \<open>
  Once started, the program ends with the result of the first task that ends: with the task's
  own error, with a join error when it panicked, and with success when it returned.
\<close>

lemma main_started:
  assumes "start_up env cli = (ts, Inr l)"
  shows "joined_of out = Some j \<Longrightarrow>
    main env cli (Some j) = (case out of Inl (Panic msg) \<Rightarrow> Inl (Err (Join msg)) | _ \<Rightarrow> out)"
  using assms by (cases out rule: joined_of.cases) (auto simp: main_def)

end
