(* ===== verification/Concurrency.thy ===== *)
theory Concurrency
  imports Task_Loop Errors
begin

text \<open>
  What the composition of the tasks rests on: reachable states of a step relation with a rule
  for invariants, the broadcast channels between the tasks, and interleavings of the tasks'
  messages.

  The two broadcast channels are created with \<open>channel(100)\<close> in \<^verbatim>\<open>alerter/src/subspace.rs\<close> and
  \<^verbatim>\<open>alerter/src/p2p_network.rs\<close>.  A channel is the log of what was sent, with one read position
  per receiver.  When a receiver is behind by more than the channel keeps, \<open>recv\<close> returns
  \<open>Lagged\<close>; from which backlog on it does so, and with which count, is the parameter \<open>lag\<close>.
  The channel is documented to keep at least as many entries as its capacity.
\<close>

section \<open>Reachable states\<close>

inductive reach :: "('s \<Rightarrow> bool) \<Rightarrow> ('s \<Rightarrow> 's \<Rightarrow> bool) \<Rightarrow> 's \<Rightarrow> bool" for init step where
  reach_init: "init s \<Longrightarrow> reach init step s"
| reach_step: "reach init step s \<Longrightarrow> step s t \<Longrightarrow> reach init step t"

text \<open>An invariant; a step may use that its source is reachable, so invariants build on each other.\<close>

locale step_invariant =
  fixes init :: "'s \<Rightarrow> bool" and step :: "'s \<Rightarrow> 's \<Rightarrow> bool" and inv :: "'s \<Rightarrow> bool"
  assumes inv_init: "init s \<Longrightarrow> inv s"
    and inv_step: "reach init step s \<Longrightarrow> inv s \<Longrightarrow> step s t \<Longrightarrow> inv t"
begin

lemma reach_inv: "reach init step s \<Longrightarrow> inv s"
  by (induction rule: reach.induct) (auto intro: inv_init inv_step)

end

section \<open>Broadcast channels\<close>

definition CHANNEL_CAPACITY :: nat where
  "CHANNEL_CAPACITY = 100"

type_synonym channel_lag = "nat \<Rightarrow> u64 option"

definition lag_law :: "channel_lag \<Rightarrow> bool" where
  "lag_law lag \<longleftrightarrow> (\<forall>n \<le> CHANNEL_CAPACITY. lag n = None)"

text \<open>\<open>None\<close>: nothing to receive yet.\<close>

definition chan_recv :: "channel_lag \<Rightarrow> 'a list \<Rightarrow> nat \<Rightarrow> (recv_error + 'a) option" where
  "chan_recv lag log pos =
     (if length log \<le> pos then None
      else (case lag (length log - pos) of Some k \<Rightarrow> Some (Inl (Lagged k)) | None \<Rightarrow> Some (Inr (log ! pos))))"

lemma chan_recv_None: "chan_recv lag log pos = None \<longleftrightarrow> length log \<le> pos"
  by (auto simp: chan_recv_def split: option.splits)

lemma chan_recv_Inr:
  "chan_recv lag log pos = Some (Inr x) \<Longrightarrow> pos < length log \<and> x = log ! pos \<and> take (Suc pos) log = take pos log @ [x]"
  by (auto simp: chan_recv_def take_Suc_conv_app_nth split: if_splits option.splits)

lemma chan_recv_Inl: "chan_recv lag log pos = Some (Inl e) \<Longrightarrow> pos < length log \<and> (\<exists>k. e = Lagged k \<and> lag (length log - pos) = Some k)"
  by (auto simp: chan_recv_def split: if_splits option.splits)

lemma chan_recv_within:
  "lag_law lag \<Longrightarrow> pos < length log \<Longrightarrow> length log - pos \<le> CHANNEL_CAPACITY \<Longrightarrow> chan_recv lag log pos = Some (Inr (log ! pos))"
  by (auto simp: chan_recv_def lag_law_def)

text \<open>What a run of a task that waits with a timeout has received.\<close>

fun received :: "'a timed_recv list \<Rightarrow> 'a list" where
  "received [] = []"
| "received (Recv (Inr x) # ins) = x # received ins"
| "received (_ # ins) = received ins"

lemma received_append [simp]: "received (ins @ js) = received ins @ received js"
  by (induction ins rule: received.induct) auto

section \<open>Interleavings\<close>

lemma run_loop_snoc:
  "run_loop body s ins = (t, os, None) \<Longrightarrow> body t i = (t', os', None) \<Longrightarrow>
   run_loop body s (ins @ [i]) = (t', os @ os', None)"
  using run_loop_append [of body s ins t os "[i]"] by simp

text \<open>
  A task that waits with a timeout has reached a state and sent messages after receiving the
  given entries, with any timeouts in between.
\<close>

definition timed_runs ::
  "('s \<Rightarrow> 'a timed_recv \<Rightarrow> ('s, 'o, 'f) step_result) \<Rightarrow> 's \<Rightarrow> 's \<Rightarrow> 'a list \<Rightarrow> 'o list \<Rightarrow> bool" where
  "timed_runs body init s got outs \<longleftrightarrow>
     (\<exists>ins. run_loop body init ins = (s, outs, None) \<and> received ins = got)"

lemma timed_runs_init: "timed_runs body init init [] []"
  unfolding timed_runs_def by (rule exI [of _ "[]"]) simp

lemma timed_runs_recv:
  assumes "timed_runs body init s got outs" and "body s (Recv (Inr x)) = (s', os, None)"
  shows "timed_runs body init s' (got @ [x]) (outs @ os)"
proof -
  obtain ins where ins: "run_loop body init ins = (s, outs, None)" "received ins = got"
    using assms(1) by (auto simp: timed_runs_def)
  with run_loop_snoc [OF ins(1) assms(2)] show ?thesis
    unfolding timed_runs_def by (intro exI [of _ "ins @ [Recv (Inr x)]"]) simp
qed

lemma timed_runs_elapsed:
  assumes "timed_runs body init s got outs" and "body s Elapsed = (s', os, None)"
  shows "timed_runs body init s' got (outs @ os)"
proof -
  obtain ins where ins: "run_loop body init ins = (s, outs, None)" "received ins = got"
    using assms(1) by (auto simp: timed_runs_def)
  with run_loop_snoc [OF ins(1) assms(2)] show ?thesis
    unfolding timed_runs_def by (intro exI [of _ "ins @ [Elapsed]"]) simp
qed

lemma shuffles_append_left: "zs \<in> shuffles xs ys \<Longrightarrow> zs @ ws \<in> shuffles (xs @ ws) ys"
proof (induction xs ys arbitrary: zs rule: shuffles.induct)
  case (1 ys)
  then show ?case
  proof (induction ys arbitrary: zs)
    case (Cons y ys)
    then show ?case by (cases ws) (auto intro: Cons_in_shuffles_rightI)
  qed simp
next
  case (3 x xs y ys)
  then show ?case by auto
qed simp

lemma shuffles_append_right: "zs \<in> shuffles xs ys \<Longrightarrow> zs @ ws \<in> shuffles xs (ys @ ws)"
  using shuffles_append_left [of zs ys xs ws] by (simp add: shuffles_commutes)

text \<open>The interleavings of the messages of three tasks.\<close>

definition interleave3 :: "'a list \<Rightarrow> 'a list \<Rightarrow> 'a list \<Rightarrow> 'a list set" where
  "interleave3 xs ys zs = (\<Union>us\<in>shuffles ys zs. shuffles xs us)"

lemma interleave3_Nil: "[] \<in> interleave3 [] [] []"
  by (simp add: interleave3_def)

lemma interleave3_append:
  assumes "us \<in> interleave3 xs ys zs"
  shows "us @ ws \<in> interleave3 (xs @ ws) ys zs" and "us @ ws \<in> interleave3 xs (ys @ ws) zs"
    and "us @ ws \<in> interleave3 xs ys (zs @ ws)"
  using assms by (auto simp: interleave3_def intro: shuffles_append_left shuffles_append_right)

text \<open>An extraction that only one of two tasks contributes to.\<close>

lemma concat_map_shuffles:
  "zs \<in> shuffles xs ys \<Longrightarrow> concat (map f ys) = [] \<Longrightarrow> concat (map f zs) = concat (map f xs)"
  by (induction xs ys arbitrary: zs rule: shuffles.induct) auto

lemma concat_map_interleave3:
  assumes "us \<in> interleave3 xs ys zs" and "concat (map f ys) = []" and "concat (map f zs) = []"
  shows "concat (map f us) = concat (map f xs)"
proof -
  obtain ws where "ws \<in> shuffles ys zs" "us \<in> shuffles xs ws" using assms(1) by (auto simp: interleave3_def)
  with concat_map_shuffles [of ws ys zs f] concat_map_shuffles [of us xs ws f] assms(2,3) show ?thesis by simp
qed

lemma concat_map_interleave3_mid:
  assumes "us \<in> interleave3 xs ys zs" and "concat (map f xs) = []" and "concat (map f zs) = []"
  shows "concat (map f us) = concat (map f ys)"
proof -
  obtain ws where "ws \<in> shuffles ys zs" "us \<in> shuffles ws xs"
    using assms(1) by (auto simp: interleave3_def shuffles_commutes)
  with concat_map_shuffles [of ws ys zs f] concat_map_shuffles [of us ws xs f] assms(2,3) show ?thesis by simp
qed

lemma concat_map_interleave3_last:
  assumes "us \<in> interleave3 xs ys zs" and "concat (map f xs) = []" and "concat (map f ys) = []"
  shows "concat (map f us) = concat (map f zs)"
proof -
  obtain ws where "ws \<in> shuffles zs ys" "us \<in> shuffles ws xs"
    using assms(1) by (auto simp: interleave3_def shuffles_commutes)
  with concat_map_shuffles [of ws zs ys f] concat_map_shuffles [of us ws xs f] assms(2,3) show ?thesis by simp
qed

end
