(* ===== verification/System.thy ===== *)
theory System
  imports Main_Wiring Concurrency
begin

text \<open>
  The running program: the follower, the three monitors, the network task, the Slack task and
  the health push take their steps in any order, as the runtime schedules them.  The two
  broadcast channels are logs with one read position per consumer, the alert channel is a log
  with the position of the Slack task.  A step is one round of one task that does not end it;
  the program runs until the first round that ends its task, so the reachable states are those
  of the program before its end (\<open>System_End\<close> has the rounds that end it).

  The follower is the state machine of \<open>listen_for_all_blocks\<close>: connecting with the cache it
  has, or following a subscription; an RPC error takes it from the latter back to the former.
  A consumer that has read everything may time out; one that has not receives what the
  channel gives it.
\<close>

datatype follower_task = Connecting headers_metadata_cache | Following follower

text \<open>
  What the running program depends on: the code and the services outside of it, and what its
  tasks were given when they were spawned (\<open>setting_of\<close> below).
\<close>

record ('dec, 'evs) setting =
  st_api :: chain_api
  st_headers :: "header set"
  st_chain_cfg :: stall_and_reorg_config
  st_slots_cfg :: slots_config
  st_push :: slot_push
  st_lag :: channel_lag
  st_finders :: "'evs finders"
  st_clients :: "'evs client set"
  st_from_str :: "string \<Rightarrow> account_id option"
  st_account_list :: "account list"
  st_accounts :: accounts
  st_format_env :: "'dec format_env"
  st_format_cfg :: format_config
  st_slack :: slack_alerter
  st_http :: slack_http
  st_network :: network
  st_uptime :: "(string \<times> duration) option"

record system =
  sy_follower :: follower_task
  sy_blocks :: "blocks_ext list"
  sy_chain :: watch_state
  sy_chain_pos :: nat
  sy_event_pos :: nat
  sy_network :: network
  sy_proofs :: "pot_info list"
  sy_slots :: monitor_state
  sy_slot_pos :: nat
  sy_alerts :: "alert list"
  sy_posted :: nat
  sy_posts :: "post_request list"
  sy_pushes :: "string list"

text \<open>
  A consumer's stream is a resubscription: it starts after the entries sent so far.  \<open>main\<close> hands
  the streams out before the follower and the network task start.
\<close>

definition blocks_stream :: "blocks_ext list \<Rightarrow> nat" where
  "blocks_stream sent = length sent"

definition pot_stream :: "pot_info list \<Rightarrow> nat" where
  "pot_stream sent = length sent"

lemma stream_starts [simp]: "blocks_stream [] = 0" "pot_stream [] = 0"
  by (simp_all add: blocks_stream_def pot_stream_def)

definition system_init :: "network \<Rightarrow> instant \<Rightarrow> system" where
  "system_init nw start =
     \<lparr>sy_follower = Connecting default_cache, sy_blocks = [], sy_chain = watch_init, sy_chain_pos = blocks_stream [],
      sy_event_pos = blocks_stream [], sy_network = nw, sy_proofs = [], sy_slots = monitor_init start,
      sy_slot_pos = pot_stream [],
      sy_alerts = [], sy_posted = 0, sy_posts = [], sy_pushes = []\<rparr>"

definition system_start :: "('dec, 'evs) setting \<Rightarrow> system \<Rightarrow> bool" where
  "system_start env s \<longleftrightarrow>
     chain_api_ok (st_api env) \<and> headers_ok (st_api env) (st_headers env) \<and> force_push_ok (st_push env) \<and>
     account_mapped_name (st_from_str env) Map.empty (st_account_list env) = Inr (st_accounts env) \<and>
     (\<exists>now. s = system_init (st_network env) now)"

text \<open>
  The tasks of the join set give a setting: each monitor, the Slack task, the follower and the
  network task run once, with the arguments they were spawned with, and the health push at most
  once.  \<open>world\<close> has the code and the services outside of the program.
\<close>

definition the_only :: "('t \<Rightarrow> 'a option) \<Rightarrow> 't list \<Rightarrow> 'a option" where
  "the_only sel ts = (case List.map_filter sel ts of [x] \<Rightarrow> Some x | _ \<Rightarrow> None)"

definition setting_of :: "('dec, 'evs) setting \<Rightarrow> task list \<Rightarrow> ('dec, 'evs) setting option" where
  "setting_of world ts =
     Option.bind (the_only (\<lambda>t. case t of ChainMonitor cfg \<Rightarrow> Some cfg | _ \<Rightarrow> None) ts) (\<lambda>chain.
     Option.bind (the_only (\<lambda>t. case t of EventMonitor accounts \<Rightarrow> Some accounts | _ \<Rightarrow> None) ts) (\<lambda>accounts.
     Option.bind (the_only (\<lambda>t. case t of SlotMonitor cfg \<Rightarrow> Some cfg | _ \<Rightarrow> None) ts) (\<lambda>slots.
     Option.bind (the_only (\<lambda>t. case t of SlackTask sa fc \<Rightarrow> Some (sa, fc) | _ \<Rightarrow> None) ts) (\<lambda>(sa, fc).
     Option.bind (the_only (\<lambda>t. case t of P2pTask nw \<Rightarrow> Some nw | _ \<Rightarrow> None) ts) (\<lambda>nw.
     Option.bind (the_only (\<lambda>t. case t of BlockFollower \<Rightarrow> Some () | _ \<Rightarrow> None) ts) (\<lambda>_.
     Option.bind
       (case List.map_filter (\<lambda>t. case t of UptimePush url every \<Rightarrow> Some (url, every) | _ \<Rightarrow> None) ts of
          [] \<Rightarrow> Some None | [x] \<Rightarrow> Some (Some x) | _ \<Rightarrow> None) (\<lambda>uptime.
     Some (world\<lparr>st_chain_cfg := chain, st_account_list := accounts, st_slots_cfg := slots, st_slack := sa,
                 st_format_cfg := fc, st_network := nw, st_uptime := uptime\<rparr>))))))))"

text \<open>The setting of the tasks that \<open>main\<close> spawns.\<close>

lemma setting_of_spawned:
  "setting_of world ([RuntimeUpdater] @ spawn_tasks cli details nc nw sa) =
     Some (world\<lparr>st_chain_cfg := stall_and_reorg cli, st_account_list := nc_accounts nc, st_slots_cfg := slots_cfg cli,
       st_slack := sa, st_format_cfg := \<lparr>fc_rpc_url = rpc_url cli, fc_token_name = nd_token_symbol details,
         fc_token_decimals = nd_token_decimals details\<rparr>, st_network := nw,
       st_uptime := map_option (\<lambda>url. (url, uptimekuma_interval (uptimekuma cli))) (uptimekuma_url (uptimekuma cli))\<rparr>)"
  by (cases "uptimekuma_url (uptimekuma cli)")
    (simp_all add: setting_of_def the_only_def spawn_tasks_def List.map_filter_simps)

text \<open>
  One rule for every round of a task that does not end it.  Nodes are honest (\<open>node_ok\<close>,
  \<open>item_ok\<close>); peers, clocks and Slack are not restricted, and the
  event monitor reads through any client of the setting.
\<close>

inductive system_step :: "('dec, 'evs) setting \<Rightarrow> system \<Rightarrow> system \<Rightarrow> bool" for env where
  connect:
    "sy_follower s = Connecting c \<Longrightarrow> node_ok (st_api env) (st_headers env) nd \<Longrightarrow>
     list_all (item_ok (st_api env) (st_headers env)) sub \<Longrightarrow>
     load_header_metadata_cache (st_api env) nd c sub = Some (Inr (fo, [])) \<Longrightarrow>
     system_step env s (s\<lparr>sy_follower := Following fo\<rparr>)"
| follow:
    "sy_follower s = Following fo \<Longrightarrow> item_ok (st_api env) (st_headers env) item \<Longrightarrow>
     listen_step (st_api env) fo item = (fo', sent, None) \<Longrightarrow>
     system_step env s (s\<lparr>sy_follower := Following fo', sy_blocks := sy_blocks s @ sent\<rparr>)"
| reconnect:
    "sy_follower s = Following fo \<Longrightarrow> item_ok (st_api env) (st_headers env) item \<Longrightarrow>
     listen_step (st_api env) fo item = (fo', sent, Some f) \<Longrightarrow> reconnects (True, f) \<Longrightarrow>
     system_step env s (s\<lparr>sy_follower := Connecting (fo_cache fo'), sy_blocks := sy_blocks s @ sent\<rparr>)"
| chain_receive:
    "chan_recv (st_lag env) (sy_blocks s) (sy_chain_pos s) = Some r \<Longrightarrow>
     watch_step (st_chain_cfg env) (sy_chain s) (Recv r) = (w, as, None) \<Longrightarrow>
     system_step env s (s\<lparr>sy_chain := w, sy_chain_pos := Suc (sy_chain_pos s), sy_alerts := sy_alerts s @ as\<rparr>)"
| chain_timeout:
    "chan_recv (st_lag env) (sy_blocks s) (sy_chain_pos s) = None \<Longrightarrow>
     watch_step (st_chain_cfg env) (sy_chain s) Elapsed = (w, as, None) \<Longrightarrow>
     system_step env s (s\<lparr>sy_chain := w, sy_alerts := sy_alerts s @ as\<rparr>)"
| event_receive:
    "chan_recv (st_lag env) (sy_blocks s) (sy_event_pos s) = Some r \<Longrightarrow> cl \<in> st_clients env \<Longrightarrow>
     events_step (st_finders env) (st_accounts env) (cl, r) = (m, as, None) \<Longrightarrow>
     system_step env s (s\<lparr>sy_event_pos := Suc (sy_event_pos s), sy_alerts := sy_alerts s @ as\<rparr>)"
| network:
    "net_step (sy_network s) i = (nw, acts, None) \<Longrightarrow>
     system_step env s (s\<lparr>sy_network := nw, sy_proofs := sy_proofs s @ sent_proofs acts\<rparr>)"
| slot_receive:
    "chan_recv (st_lag env) (sy_proofs s) (sy_slot_pos s) = Some r \<Longrightarrow>
     monitor_step (st_push env) (st_slots_cfg env) (sy_slots s) (Recv r) = (m, as, None) \<Longrightarrow>
     system_step env s (s\<lparr>sy_slots := m, sy_slot_pos := Suc (sy_slot_pos s), sy_alerts := sy_alerts s @ as\<rparr>)"
| slot_timeout:
    "chan_recv (st_lag env) (sy_proofs s) (sy_slot_pos s) = None \<Longrightarrow>
     monitor_step (st_push env) (st_slots_cfg env) (sy_slots s) Elapsed = (m, as, None) \<Longrightarrow>
     system_step env s (s\<lparr>sy_slots := m, sy_alerts := sy_alerts s @ as\<rparr>)"
| slack_post:
    "sy_posted s < length (sy_alerts s) \<Longrightarrow>
     slack_step (st_http env) (st_format_env env) (st_format_cfg env) (st_slack env)
       (Some (sy_alerts s ! sy_posted s), answers) = (sa, calls, None) \<Longrightarrow>
     system_step env s (s\<lparr>sy_posted := Suc (sy_posted s), sy_posts := sy_posts s @ map cp_request calls\<rparr>)"
| uptime:
    "st_uptime env = Some (url, every) \<Longrightarrow> uptime_step url every () answer = (u, reqs, None) \<Longrightarrow>
     system_step env s (s\<lparr>sy_pushes := sy_pushes s @ reqs\<rparr>)"

abbreviation reachable :: "('dec, 'evs) setting \<Rightarrow> system \<Rightarrow> bool" where
  "reachable env \<equiv> reach (system_start env) (system_step env)"

section \<open>What the tasks rely on\<close>

definition follower_task_ok :: "chain_api \<Rightarrow> header set \<Rightarrow> follower_task \<Rightarrow> bool" where
  "follower_task_ok api U t \<longleftrightarrow> chain_api_ok api \<and> headers_ok api U \<and>
     (case t of Connecting c \<Rightarrow> cache_within api U c | Following fo \<Rightarrow> follower_ok api U fo)"

definition sources_ok :: "('dec, 'evs) setting \<Rightarrow> system \<Rightarrow> bool" where
  "sources_ok env s \<longleftrightarrow>
     follower_task_ok (st_api env) (st_headers env) (sy_follower s) \<and>
     list_all (some_broadcast (st_api env) (st_headers env)) (sy_blocks s) \<and>
     monitor_ok (st_push env) (sy_slots s) \<and> sy_chain_pos s \<le> length (sy_blocks s) \<and>
     sy_event_pos s \<le> length (sy_blocks s) \<and> sy_slot_pos s \<le> length (sy_proofs s) \<and>
     sy_posted s \<le> length (sy_alerts s)"

lemma some_broadcast_input: "some_broadcast api U bx \<Longrightarrow> watch_input_ok (Recv (Inr bx))"
  by (auto simp: some_broadcast_def broadcast_ok_def)

lemma load_follower_ok:
  assumes "chain_api_ok api" and "headers_ok api U" and "node_ok api U nd" and "cache_within api U c"
    and "load_header_metadata_cache api nd c sub = Some (Inr (fo, rest))"
  shows "follower_ok api U fo"
proof -
  from assms(5) obtain hash where "load_range api nd c hash = Inr fo"
    by (auto simp: load_header_metadata_cache_def bind_res_eq_Inr split: prod.splits)
  with load_range_headers [OF assms(2-4)] assms(1,2) show ?thesis by (simp add: follower_ok_def)
qed

text \<open>A received broadcast is one of the follower's.\<close>

lemma received_broadcast:
  "sources_ok env s \<Longrightarrow> chan_recv lag (sy_blocks s) pos = Some (Inr bx) \<Longrightarrow>
   some_broadcast (st_api env) (st_headers env) bx"
  by (auto simp: sources_ok_def list_all_length dest!: chan_recv_Inr)

lemma step_recv_Inr:
  "watch_step cfg w (Recv r) = (w', as, None) \<Longrightarrow> \<exists>x. r = Inr x"
  "events_step f m (cl, r) = (m', as, None) \<Longrightarrow> \<exists>x. r = Inr x"
  "monitor_step push scfg ms (Recv r') = (ms', as, None) \<Longrightarrow> \<exists>x. r' = Inr x"
  by ((cases r; auto), (cases r; auto), (cases r'; auto))

lemma system_step_sources:
  assumes "system_step env s t" and "sources_ok env s"
  shows "sources_ok env t"
  using assms
proof (cases rule: system_step.cases)
  case (connect c nd sub fo)
  with assms(2) load_follower_ok [of "st_api env" "st_headers env" nd c sub fo "[]"] show ?thesis
    by (simp add: sources_ok_def follower_task_ok_def)
next
  case (follow fo item fo' sent)
  with assms(2) listen_step_post [of "st_api env" "st_headers env" fo item fo' sent None]
  show ?thesis by (auto simp: sources_ok_def follower_task_ok_def some_broadcast_def) blast
next
  case (reconnect fo item fo' sent f)
  with assms(2) listen_step_post [of "st_api env" "st_headers env" fo item fo' sent "Some f"]
  show ?thesis by (auto simp: sources_ok_def follower_task_ok_def follower_ok_def)
next
  case (chain_receive r w as)
  with assms(2) step_recv_Inr(1) [OF chain_receive(3)] show ?thesis
    by (auto simp: sources_ok_def dest: chan_recv_Inr)
next
  case (event_receive r cl m as)
  with assms(2) step_recv_Inr(2) [OF event_receive(4)] show ?thesis
    by (auto simp: sources_ok_def dest: chan_recv_Inr)
next
  case (network i nw acts)
  with assms(2) show ?thesis by (simp add: sources_ok_def)
next
  case (slot_receive r m as)
  with step_recv_Inr(3) [OF slot_receive(3)] have "sy_slot_pos s < length (sy_proofs s)"
    by (auto dest: chan_recv_Inr)
  with slot_receive assms(2) monitor_step_any [OF _ slot_receive(3)] show ?thesis
    unfolding sources_ok_def by fastforce
next
  case (slot_timeout m as)
  with assms(2) monitor_step_any [OF _ slot_timeout(3)] show ?thesis
    unfolding sources_ok_def by fastforce
qed (auto simp: sources_ok_def)

lemma system_start_sources: "system_start env s \<Longrightarrow> sources_ok env s"
  by (auto simp: system_start_def sources_ok_def follower_task_ok_def system_init_def monitor_ok_init
      cache_within_def) (simp add: default_cache_def)

interpretation sources: step_invariant "system_start env" "system_step env" "sources_ok env"
  for env :: "('dec, 'evs) setting"
  by unfold_locales (auto intro: system_start_sources system_step_sources)

end
