(* ===== verification/Cache_Window.thy ===== *)
theory Cache_Window
  imports Block_Listener
begin

text \<open>
  The size of the header cache while the follower runs (\<^verbatim>\<open>alerter/src/subspace.rs\<close>,
  \<open>listen_for_blocks\<close> with \<open>remove_header_until\<close>).

  Pruning stops at the first block number without an entry, so it bounds the cache only as
  long as the cached numbers have no gap.  The invariant \<open>tracked\<close> says so, together with the
  best block's number being cached.  The headers fetched on the way of a tree route keep it, because
  each of them is the parent of a cached block; a subscribed block keeps it when its number is
  next to a cached one, which is the case for a child of any cached block.  Loading the cache
  at start-up establishes it.
\<close>

definition numbers :: "headers_metadata_cache \<Rightarrow> block_number set" where
  "numbers c = dom (block_number_hashes c)"

text \<open>No gap, and a number that does not open one.\<close>

definition contiguous :: "block_number set \<Rightarrow> bool" where
  "contiguous N \<longleftrightarrow> (\<forall>a\<in>N. \<forall>b\<in>N. {a..b} \<subseteq> N)"

definition adjacent :: "block_number set \<Rightarrow> block_number \<Rightarrow> bool" where
  "adjacent N n \<longleftrightarrow> (\<exists>k\<in>N. unat n \<le> Suc (unat k) \<and> unat k \<le> Suc (unat n))"

text \<open>The number of a block is one of the cached numbers, whether its own header is cached or not.\<close>

definition known :: "chain_api \<Rightarrow> header set \<Rightarrow> headers_metadata_cache \<Rightarrow> block_hash \<Rightarrow> bool" where
  "known api U c hash \<longleftrightarrow> (\<forall>h\<in>U. header_hash api h = hash \<longrightarrow> h_number h \<in> numbers c)"

definition tracked :: "chain_api \<Rightarrow> header set \<Rightarrow> follower \<Rightarrow> bool" where
  "tracked api U st \<longleftrightarrow>
     contiguous (numbers (fo_cache st)) \<and> known api U (fo_cache st) (hn_hash (fo_best st))"

text \<open>Every block of the subscription arrives with a number next to the cached ones.\<close>

fun near_window :: "chain_api \<Rightarrow> follower \<Rightarrow> subscription \<Rightarrow> bool" where
  "near_window api st [] = True"
| "near_window api st (x # sub) =
     ((case snd x of SubBlock b \<Rightarrow> adjacent (numbers (fo_cache st)) (sb_number b) | _ \<Rightarrow> True) \<and>
      (case listen_step api st x of (st', os, None) \<Rightarrow> near_window api st' sub | _ \<Rightarrow> True))"

text \<open>The node's header of the canonical block at a number has that number.\<close>

definition numbered_ok :: "node \<Rightarrow> bool" where
  "numbered_ok nd \<longleftrightarrow> (\<forall>n sh. canonical_header nd n = Inr sh \<longrightarrow> sh_number sh = n)"

section \<open>Sets of block numbers without a gap\<close>

lemma contiguousD: "contiguous N \<Longrightarrow> a \<in> N \<Longrightarrow> b \<in> N \<Longrightarrow> a \<le> x \<Longrightarrow> x \<le> b \<Longrightarrow> x \<in> N"
  unfolding contiguous_def by fastforce

lemma contiguous_empty [simp]: "contiguous {}"
  by (simp add: contiguous_def)

lemma contiguous_interval [simp]: "contiguous {a..b}"
  by (auto simp: contiguous_def)

lemma adjacent_member: "n \<in> N \<Longrightarrow> adjacent N n"
  unfolding adjacent_def by (rule bexI [of _ n]) simp_all

lemma contiguous_insert:
  assumes N: "contiguous N" and n: "adjacent N n"
  shows "contiguous (insert n N)"
proof -
  obtain k where k: "k \<in> N" "unat n \<le> Suc (unat k)" "unat k \<le> Suc (unat n)"
    using n by (auto simp: adjacent_def)
  have up: "x \<in> insert n N" if "a \<in> N" "a \<le> x" "x \<le> n" for a x
  proof (cases "x \<le> k")
    case True
    with contiguousD [OF N that(1) k(1) that(2)] show ?thesis by simp
  next
    case False
    with k that(3) have "unat x = unat n" by (simp add: word_le_nat_alt)
    then show ?thesis by (simp add: word_unat_eq_iff)
  qed
  have down: "x \<in> insert n N" if "a \<in> N" "n \<le> x" "x \<le> a" for a x
  proof (cases "k \<le> x")
    case True
    with contiguousD [OF N k(1) that(1) _ that(3)] show ?thesis by simp
  next
    case False
    with k that(2) have "unat x = unat n" by (simp add: word_le_nat_alt)
    then show ?thesis by (simp add: word_unat_eq_iff)
  qed
  show ?thesis unfolding contiguous_def
  proof (intro ballI subsetI)
    fix a b x assume "a \<in> insert n N" "b \<in> insert n N" "x \<in> {a..b}"
    then show "x \<in> insert n N"
      using up [of a x] down [of b x] contiguousD [OF N, of a b x] by auto
  qed
qed

section \<open>Cached numbers under the operations of the cache\<close>

lemma numbers_default [simp]: "numbers default_cache = {}"
  by (simp add: numbers_def default_cache_def)

lemma numbers_insert [simp]: "numbers (insert_header api c h) = insert (h_number h) (numbers c)"
  by (simp add: numbers_def)

lemma numbers_remove: "numbers (remove_header_until c n) = numbers c - run_below c n"
  by (auto simp: numbers_def numbers_remove_header_until split: if_splits)

lemma cached_number: "cache_inv api c \<Longrightarrow> block_header_data c hash = Some h \<Longrightarrow> h_number h \<in> numbers c"
  by (auto simp: cache_inv_def numbers_def dest: cache_indexedD)

lemma run_below_contiguous:
  assumes "contiguous (numbers c)" and "n \<in> numbers c"
  shows "run_below c n = numbers c \<inter> {..n}"
  using contiguousD [OF assms(1) _ assms(2)]
  by (auto simp: run_below_def numbers_def)

text \<open>With no gap up to a cached number above the bound, pruning leaves nothing up to the bound.\<close>

lemma numbers_pruned:
  assumes N: "contiguous (numbers c)" and top: "t \<in> numbers c" "n < t"
  shows "numbers (remove_header_until c n) = numbers c \<inter> {n<..}"
proof (cases "n \<in> numbers c")
  case True
  then show ?thesis by (auto simp: numbers_remove run_below_contiguous [OF N True])
next
  case False
  then have "\<not> k \<le> n" if "k \<in> numbers c" for k
    using contiguousD [OF N that top(1)] top(2) by auto
  moreover have "run_below c n = {}" using False by (simp add: run_below_None numbers_def domIff)
  ultimately show ?thesis by (auto simp: numbers_remove not_le)
qed

lemma contiguous_greater: "contiguous N \<Longrightarrow> contiguous (N \<inter> {n<..})"
  by (auto simp: contiguous_def)

lemma known_cached: "headers_ok api U \<Longrightarrow> cache_within api U c \<Longrightarrow> block_header_data c hash = Some h \<Longrightarrow> known api U c hash"
  using cache_within_lookup [of api U c hash h] cached_number [of api c hash h]
  by (auto simp: known_def headers_ok_def cache_within_def dest: inj_onD)

lemma known_insert: "known api U c hash \<Longrightarrow> known api U (insert_header api c h) hash"
  by (simp add: known_def)

section \<open>The headers fetched for a route\<close>

text \<open>A missing block that was reached from a cached one is the parent of a cached one.\<close>

lemma ancestor_missing:
  assumes "ancestor get x hash" and "get x = Inr m" and "get hash = Inl e"
  shows "\<exists>y my. get y = Inr my \<and> m_parent my = hash"
  using assms
proof (induction arbitrary: m rule: ancestor.induct)
  case (up x m' y)
  show ?case
  proof (cases "get (m_parent m')")
    case (Inl e')
    then have "y = m_parent m'" using up.hyps(2) by (auto elim: ancestorE)
    with up.hyps(1) show ?thesis by blast
  qed (use up in blast)
qed simp

lemma ancestor_start: "ancestor get x y \<Longrightarrow> x \<noteq> y \<Longrightarrow> \<exists>m. get x = Inr m"
  by (erule ancestorE) auto

lemma missing_is_adjacent:
  assumes api: "chain_api_ok api" and U: "headers_ok api U" and c: "cache_within api U c"
    and ends: "known api U c from" "known api U c to"
    and miss: "tree_route_of api (header_metadata api c) from to = Inl (MissingBlockHashFromCache hash)"
    and h: "h \<in> U" "header_hash api h = hash"
  shows "adjacent (numbers c) (h_number h)"
proof -
  let ?get = "header_metadata api c"
  obtain x where none: "?get x = Inl (MissingBlockHashFromCache hash)"
    and anc: "ancestor ?get from x \<or> ancestor ?get to x"
    using api cache_wf_lookup [OF api U c] miss unfolding chain_api_ok_def tree_route_law_def by meson
  then have x: "x = hash" by (simp add: header_metadata_Inl)
  show ?thesis
  proof (cases "hash = from \<or> hash = to")
    case True
    with ends h show ?thesis by (auto simp: known_def intro: adjacent_member)
  next
    case False
    with anc x obtain a m where a: "?get a = Inr m" "ancestor ?get a hash" using ancestor_start by metis
    then obtain y my where "?get y = Inr my" "m_parent my = hash"
      using ancestor_missing [OF a(2,1)] none x by blast
    then obtain g where g: "g \<in> U" "block_header_data c y = Some g" "h_parent_hash g = hash"
      by (auto simp: header_metadata_within [OF api c])
    with U h have "unat (h_number g) = Suc (unat (h_number h))" by (auto simp: headers_ok_def)
    moreover have "h_number g \<in> numbers c" using c g(2) by (auto simp: cache_within_def intro: cached_number)
    ultimately show ?thesis unfolding adjacent_def by (intro bexI [of _ "h_number g"]) simp_all
  qed
qed

text \<open>
  The rule for what \<open>recursive_tree_route\<close> does to the cache: what holds of the cache it is
  given, and is kept by every header it fetches, holds of the cache it leaves.
\<close>

lemma recursive_tree_route_keeps:
  assumes run: "recursive_tree_route api nd c from to = Some (c', res)" and "P c"
    and step: "\<And>c hash sh h. P c \<Longrightarrow>
      tree_route_of api (header_metadata api c) from to = Inl (MissingBlockHashFromCache hash) \<Longrightarrow>
      fetch_header nd hash = Inr sh \<Longrightarrow> rebuild_header api sh = Inr h \<Longrightarrow> P (insert_header api c h)"
  shows "P c'"
proof -
  have "api' = api \<and> nd' = nd \<and> from' = from \<and> to' = to \<longrightarrow> P d \<longrightarrow> P (fst x)"
    if "recursive_tree_route api' nd' d from' to' = Some x" for api' nd' d from' to' x
    using that
  proof (rule recursive_tree_route.raw_induct [rotated], goal_cases)
    case (1 rec api' nd' d from' to' x)
    show ?case
    proof (intro impI, elim conjE)
      assume eqs: "api' = api" "nd' = nd" "from' = from" "to' = to" and P: "P d"
      consider "fst x = d"
        | hash sh h where "tree_route_of api (header_metadata api d) from to = Inl (MissingBlockHashFromCache hash)"
          "fetch_header nd hash = Inr sh" "rebuild_header api sh = Inr h"
          "rec api nd (insert_header api d h) from to = Some x"
        using 1(2) eqs by (auto simp: add_header_def bind_res_def split: sum.splits error.splits)
      then show "P (fst x)"
        using P step [OF P] 1(1) by cases auto
    qed
  qed
  from this [OF run] \<open>P c\<close> show ?thesis by simp
qed

section \<open>Importing a block\<close>

text \<open>What the follower maintains about its cache and a set of blocks it has seen.\<close>

definition gapless :: "chain_api \<Rightarrow> header set \<Rightarrow> block_hash set \<Rightarrow> headers_metadata_cache \<Rightarrow> bool" where
  "gapless api U B c \<longleftrightarrow>
     cache_within api U c \<and> contiguous (numbers c) \<and> (\<forall>hash\<in>B. known api U c hash)"

lemma gapless_insert:
  assumes "headers_ok api U" and "gapless api U B c" and "h \<in> U" and "adjacent (numbers c) (h_number h)"
  shows "gapless api U (insert (header_hash api h) B) (insert_header api c h)"
proof -
  have c: "cache_within api U (insert_header api c h)"
    using assms(1-3) by (simp add: gapless_def cache_within_insert)
  with known_cached [OF assms(1) c, of "header_hash api h" h] assms show ?thesis
    by (auto simp: gapless_def intro: contiguous_insert known_insert)
qed

lemma gapless_mono: "gapless api U B c \<Longrightarrow> A \<subseteq> B \<Longrightarrow> gapless api U A c"
  by (auto simp: gapless_def)

lemma route_keeps_gapless:
  assumes api: "chain_api_ok api" and U: "headers_ok api U" and nd: "node_ok api U nd"
    and run: "recursive_tree_route api nd c from to = Some (c', res)"
    and c: "gapless api U {from, to} c"
  shows "gapless api U {from, to} c'"
  using run c
proof (rule recursive_tree_route_keeps)
  fix d hash sh h
  assume d: "gapless api U {from, to} d"
    and miss: "tree_route_of api (header_metadata api d) from to = Inl (MissingBlockHashFromCache hash)"
    and sh: "fetch_header nd hash = Inr sh" "rebuild_header api sh = Inr h"
  have h: "h \<in> U" "header_hash api h = hash"
    using nd sh by (fastforce simp: node_ok_def fetch_header_Inr is_header_of_def)+
  with d missing_is_adjacent [OF api U _ _ _ miss] have "adjacent (numbers d) (h_number h)"
    by (simp add: gapless_def)
  from gapless_mono [OF gapless_insert [OF U d h(1) this]]
  show "gapless api U {from, to} (insert_header api d h)" by blast
qed

text \<open>The last enacted block is above its parent, so it is above the bound it is pruned with.\<close>

lemma last_enacted_positive:
  assumes api: "chain_api_ok api" and U: "headers_ok api U" and c: "cache_within api U c"
    and r: "route_ok (header_metadata api c) from to r" "tr_enacted r \<noteq> []"
    and h: "block_header_data c to = Some h"
  shows "h_number h \<noteq> 0"
proof -
  let ?get = "header_metadata api c"
  obtain m where m: "?get (hn_hash (tr_common r)) = Inr m" using r(1) by (auto simp: route_ok_def)
  have "?get to = Inr \<lparr>m_hash = to, m_number = h_number h, m_parent = h_parent_hash h\<rparr>"
    using h cache_within_lookup [OF c h] by (simp add: header_metadata_within [OF api c])
  with chain_up_number [OF cache_wf_lookup [OF api U c] m, of "tr_enacted r"] r
  show ?thesis by (auto simp: route_ok_def)
qed

lemma below_depth: "n \<noteq> 0 \<Longrightarrow> saturating_sub n CACHE_HEADER_DEPTH < n"
  using unat_gt_0 [of n] by (simp add: word_less_nat_alt CACHE_HEADER_DEPTH_def del: unat_gt_0)

lemma enact_keeps_tracked:
  assumes api: "chain_api_ok api" and U: "headers_ok api U" and c: "gapless api U {hn_hash (fo_best st)} c"
    and to: "block_header_data c to = Some h" "h_number h = n"
    and r: "route_ok (header_metadata api c) (hn_hash (fo_best st)) to r"
    and run: "enact_route st c n r = (st', os, f)"
  shows "tracked api U st' \<and>
    (os \<noteq> [] \<longrightarrow> numbers (fo_cache st') = numbers c \<inter> {saturating_sub n CACHE_HEADER_DEPTH<..})"
proof (cases "tr_enacted r = []")
  case True
  with run have "st' = st\<lparr>fo_cache := c\<rparr>" "os = []" by (auto simp: enact_route_def split: if_splits)
  with c show ?thesis by (simp add: tracked_def gapless_def)
next
  case False
  let ?n = "saturating_sub n CACHE_HEADER_DEPTH"
  have c': "cache_within api U c" "contiguous (numbers c)" using c by (simp_all add: gapless_def)
  from enact_route_broadcast [OF api c'(1) r False, of n] run
  have st': "fo_cache st' = remove_header_until c ?n" "hn_hash (fo_best st') = to" by auto
  have n: "?n < n" using last_enacted_positive [OF api U c'(1) r False to(1)] to(2) below_depth by simp
  have nc: "n \<in> numbers c" using cached_number [of api c to h] c' to by (simp add: cache_within_def)
  from numbers_pruned [OF c'(2) nc n] have nums: "numbers (fo_cache st') = numbers c \<inter> {?n<..}" using st' by simp
  moreover have "g = h" if "g \<in> U" "header_hash api g = to" for g
    using that cache_within_lookup [OF c'(1) to(1)] U by (auto simp: headers_ok_def dest: inj_onD)
  ultimately show ?thesis
    using st' contiguous_greater [OF c'(2), of ?n] n nc to(2) by (auto simp: tracked_def known_def)
qed

lemma import_keeps_tracked:
  assumes st: "follower_ok api U st" and t: "tracked api U st" and item: "item_ok api U (nd, SubBlock b)"
    and near: "adjacent (numbers (fo_cache st)) (sb_number b)"
    and run: "import_block api nd st b = (st', os, f)"
  shows "tracked api U st' \<and>
    (os \<noteq> [] \<longrightarrow> (\<forall>k\<in>numbers (fo_cache st'). saturating_sub (sb_number b) CACHE_HEADER_DEPTH < k))"
proof -
  have api: "chain_api_ok api" and U: "headers_ok api U" and c: "gapless api U {hn_hash (fo_best st)} (fo_cache st)"
    using st t by (auto simp: follower_ok_def tracked_def gapless_def)
  from item obtain h where h: "h \<in> U" "rebuild_header api (sb_header b) = Inr h" "header_hash api h = sb_hash b"
    and nd: "node_ok api U nd" and n: "h_number h = sb_number b"
    by (fastforce simp: item_ok_def is_header_of_def dest: rebuild_header_Inr)
  let ?c = "insert_header api (fo_cache st) h"
  have add: "add_header api (fo_cache st) (sb_header b) = Inr (sb_hash b, ?c)"
    using h by (simp add: add_header_def)
  have c1: "gapless api U {hn_hash (fo_best st), sb_hash b} ?c"
    using gapless_mono [OF gapless_insert [OF U c h(1)]] near n h(3) by auto
  have keep: "tracked api U (st\<lparr>fo_cache := d\<rparr>)" if "gapless api U {hn_hash (fo_best st), sb_hash b} d" for d
    using that by (simp add: tracked_def gapless_def)
  obtain c' res where route: "recursive_tree_route api nd ?c (hn_hash (fo_best st)) (sb_hash b) = Some (c', res)"
    and out: "route_outcome api U ?c (hn_hash (fo_best st)) (sb_hash b) (c', res)"
    using recursive_tree_route_returns [OF api U nd, of ?c "hn_hash (fo_best st)" "sb_hash b"] c1
    by (auto simp: gapless_def)
  note c2 = route_keeps_gapless [OF api U nd route c1]
  have data: "block_header_data c' (sb_hash b) = Some h"
    using out h(3) by (auto simp: route_outcome_def map_le_def)
  show ?thesis
  proof (cases "is_canonical_block nd (sb_number b) (sb_hash b) = Inr True \<and> (\<exists>r. res = Inr r)")
    case True
    then obtain r where r: "res = Inr r" by blast
    then have "import_block api nd st b = enact_route st c' (sb_number b) r"
      using add route True by (simp add: import_block_def)
    with enact_keeps_tracked [OF api U gapless_mono [OF c2] data n, of st r] run out r
    show ?thesis by (auto simp: route_outcome_def)
  next
    case False
    then show ?thesis using run add route keep [OF c1] keep [OF c2]
      by (auto simp: import_block_def split: sum.splits bool.splits)
  qed
qed

section \<open>A session\<close>

text \<open>The fold of \<open>add_headers\<close> over the loaded range caches exactly the numbers of the range.\<close>

lemma numbers_fold_insert:
  "numbers (fold (\<lambda>h c. insert_header api c h) hs c) = numbers c \<union> h_number ` set hs"
  by (induction hs arbitrary: c) auto

lemma load_range_tracked:
  assumes U: "headers_ok api U" and nd: "node_ok api U nd" "numbered_ok nd"
    and load: "load_range api nd default_cache latest = Inr st"
  shows "tracked api U st \<and>
    numbers (fo_cache st) = {saturating_sub (hn_number (fo_best st)) CACHE_HEADER_DEPTH .. hn_number (fo_best st)}"
proof -
  obtain sh shs where sh: "chain_get_header nd latest = Inr (Some sh)"
    and shs: "map (canonical_header nd) (range_incl (saturating_sub (sh_number sh) CACHE_HEADER_DEPTH) (sh_number sh)) = map Inr shs"
    and add: "add_headers api default_cache shs = Inr (fo_cache st)"
    and best: "fo_best st = \<lparr>hn_number = sh_number sh, hn_hash = latest\<rparr>"
    using load by (rule load_range_Inr)
  obtain hs where hs: "map (rebuild_header api) shs = map Inr hs"
    and fold: "fo_cache st = fold (\<lambda>h c. insert_header api c h) hs default_cache"
    using add_headers_fold [OF add] by blast
  let ?ns = "range_incl (saturating_sub (sh_number sh) CACHE_HEADER_DEPTH) (sh_number sh)"
  have "map h_number hs = ?ns"
  proof (rule nth_equalityI)
    show len: "length (map h_number hs) = length ?ns" using shs hs by (metis length_map)
    show "map h_number hs ! i = ?ns ! i" if "i < length (map h_number hs)" for i
    proof -
      have "canonical_header nd (?ns ! i) = Inr (shs ! i)" "rebuild_header api (shs ! i) = Inr (hs ! i)"
        using shs hs that len by (metis length_map nth_map)+
      with nd(2) that show ?thesis by (auto simp: numbered_ok_def dest: rebuild_header_Inr)
    qed
  qed
  then have nums: "numbers (fo_cache st) = set ?ns"
    using fold by (metis numbers_fold_insert numbers_default sup_bot_left set_map)
  have "h_number g = sh_number sh" if g: "g \<in> U" "header_hash api g = latest" for g
  proof -
    obtain h where h: "h \<in> U" "rebuild_header api sh = Inr h" "header_hash api h = latest"
      using nd(1) sh by (auto simp: node_ok_def is_header_of_def)
    with g U have "g = h" by (auto simp: headers_ok_def dest: inj_onD)
    with h(2) show ?thesis by (auto dest: rebuild_header_Inr)
  qed
  with nums best show ?thesis by (auto simp: tracked_def known_def)
qed

lemma near_run:
  assumes "follower_ok api U st" and "tracked api U st" and "list_all (item_ok api U) sub"
    and "near_window api st sub" and "run_loop (listen_step api) st sub = (st', os, None)"
  shows "follower_ok api U st' \<and> tracked api U st'"
  using assms
proof (induction sub arbitrary: st os)
  case (Cons i sub)
  obtain t o1 q where b: "listen_step api st i = (t, o1, q)" by (metis prod_cases3)
  with Cons.prems(5) have q: "q = None" by (cases q) auto
  with b Cons.prems(5) obtain o2 where run: "run_loop (listen_step api) t sub = (st', o2, None)"
    by (auto split: prod.splits)
  obtain nd x where i: "i = (nd, x)" by (cases i)
  have t: "follower_ok api U t" using listen_step_post [OF Cons.prems(1) _ b] Cons.prems(3) by simp
  have "tracked api U t"
  proof (cases x)
    case (SubBlock blk)
    with i b Cons.prems import_keeps_tracked [OF Cons.prems(1,2), of nd blk t o1 q] show ?thesis by simp
  qed (use b i q in auto)
  moreover have "near_window api t sub" using Cons.prems(4) b q by simp
  ultimately show ?case using Cons.IH [OF t _ _ _ run] Cons.prems(3) by simp
qed simp

lemma near_window_append:
  "run_loop (listen_step api) st pre = (st', os, None) \<Longrightarrow>
   near_window api st (pre @ sub) \<longleftrightarrow> near_window api st pre \<and> near_window api st' sub"
  by (induction pre arbitrary: st os) (auto split: prod.splits option.splits)

section \<open>Properties\<close>

text \<open>
  C9: From start-up on, as long as every subscribed block has a number next to a cached one
  (the child of any cached block has), the cached block numbers have no gap, and so pruning
  bounds the cache: right after every broadcast it holds only headers less than
  \<open>CACHE_HEADER_DEPTH\<close> blocks below the new best block, whatever was fetched for the route, and
  at least one header for every number from the lowest cached one up to the best block.
\<close>

theorem cache_pruned_to_window:
  assumes api: "chain_api_ok api" and U: "headers_ok api U" and nd: "node_ok api U nd" "numbered_ok nd"
    and load: "load_header_metadata_cache api nd default_cache sub = Some (Inr (st, pre @ (nd', SubBlock b) # post))"
    and items: "list_all (item_ok api U) (pre @ [(nd', SubBlock b)])"
    and near: "near_window api st (pre @ [(nd', SubBlock b)])"
    and run: "listen_for_blocks api st pre = (st1, os, None)"
    and import: "import_block api nd' st1 b = (st2, [bx], f)"
  shows "contiguous (numbers (fo_cache st2)) \<and> sb_number b \<in> numbers (fo_cache st2) \<and>
    (\<forall>h\<in>ran (block_header_data (fo_cache st2)).
       saturating_sub (sb_number b) CACHE_HEADER_DEPTH < h_number h)"
proof -
  have def: "cache_within api U default_cache"
    by (simp add: cache_within_def) (simp add: default_cache_def)
  from load obtain hash where range: "load_range api nd default_cache hash = Inr st"
    by (auto simp: load_header_metadata_cache_def bind_res_eq_Inr split: prod.splits)
  have st: "follower_ok api U st" "tracked api U st"
    using load_range_headers [OF U nd(1) def range] load_range_tracked [OF U nd range] api U
    by (auto simp: follower_ok_def)
  have loop: "run_loop (listen_step api) st pre = (st1, os, None)" using run by (simp add: listen_for_blocks_def)
  have st1: "follower_ok api U st1" "tracked api U st1"
    using near_run [OF st _ _ loop] items near near_window_append [OF loop] by auto
  have item: "item_ok api U (nd', SubBlock b)" "adjacent (numbers (fo_cache st1)) (sb_number b)"
    using items near near_window_append [OF loop] by auto
  note post = import_block_post [OF st1(1) item(1)]
  with import have st2: "cache_within api U (fo_cache st2)" "hn_hash (fo_best st2) = sb_hash b"
    by (auto simp: import_post_def follower_ok_def)
  from item(1) obtain g where "g \<in> U" "header_hash api g = sb_hash b" "h_number g = sb_number b"
    by (fastforce simp: item_ok_def is_header_of_def dest: rebuild_header_Inr)
  with import_keeps_tracked [OF st1 item import] st2 show ?thesis
    by (auto simp: tracked_def known_def ran_def cache_within_def dest: cached_number)
qed

text \<open>
  The chain of \<open>Block_Listener\<close> again: blocks 0 to 3 are loaded, then the fork block 13 and the
  new best block 14 arrive; block 12 is fetched, and block 0 is pruned.
\<close>

definition ex_loaded :: follower where
  "ex_loaded = \<lparr>fo_cache = fold (\<lambda>h c. insert_header ref_api c h)
       [ex_header 0 0 99, ex_header 1 1 0, ex_header 2 2 1, ex_header 3 3 2] default_cache,
     fo_best = \<lparr>hn_number = 3, hn_hash = 3\<rparr>\<rparr>"

lemmas ex_eval = ex_defs import_block_def add_header_def rebuild_header_def res_simps
  is_canonical_block_def recursive_tree_route.simps ref_tree_route_def header_metadata_def
  meta_hn_def fetch_header_def enact_route_def get_block_ext_def get_header_def reorg_data_of_def
  insert_header_def Let_def default_cache_def walk_numeral

lemma ex_loaded_load:
  "load_header_metadata_cache ref_api ex_node_a default_cache ex_sub = Some (Inr (ex_loaded, tl ex_sub))"
  by (simp add: load_header_metadata_cache_def load_range_def ex_loaded_def ex_defs is_canonical_block_def
      res_simps fetch_header_def Let_def saturating_sub_def CACHE_HEADER_DEPTH_def range_incl_def upt_rec
      canonical_header_def add_header_def rebuild_header_def)

lemma ex_fork_import:
  "import_block ref_api ex_node_a ex_loaded (ex_block (ex_header 13 3 12)) =
    (ex_loaded\<lparr>fo_cache := insert_header ref_api (fo_cache ex_loaded) (ex_header 13 3 12)\<rparr>, [], None)"
  by (simp add: ex_defs import_block_def add_header_def rebuild_header_def res_simps is_canonical_block_def)

lemma ex_numbers_loaded: "numbers (fo_cache ex_loaded) = {0, 1, 2, 3}"
  by (auto simp: ex_loaded_def ex_header_def)

lemma ex_numbered: "numbered_ok ex_node_a"
  by (auto simp: numbered_ok_def canonical_header_Inr ex_defs split: if_splits)

lemma ex_near: "near_window ref_api ex_loaded (tl ex_sub)"
proof -
  have "adjacent (insert 3 N) 4" "adjacent (insert 3 N) 3" for N :: "u32 set"
    unfolding adjacent_def by (intro bexI [of _ 3]; simp)+
  then show ?thesis
    by (simp add: ex_sub_def ex_fork_import ex_numbers_loaded insert_commute [of _ 3])
      (simp add: ex_block_def ex_header_def split: prod.splits option.splits)
qed

lemma ex_best_import:
  "\<exists>st' bx. import_block ref_api ex_node_b
      (ex_loaded\<lparr>fo_cache := insert_header ref_api (fo_cache ex_loaded) (ex_header 13 3 12)\<rparr>)
      (ex_block (ex_header 14 4 13)) = (st', [bx], None)"
  by (simp add: ex_loaded_def ex_eval)

theorem cache_pruned_to_window_witness:
  "\<exists>st2 bx. import_block ref_api ex_node_b
      (ex_loaded\<lparr>fo_cache := insert_header ref_api (fo_cache ex_loaded) (ex_header 13 3 12)\<rparr>)
      (ex_block (ex_header 14 4 13)) = (st2, [bx], None) \<and>
     contiguous (numbers (fo_cache st2)) \<and> 4 \<in> numbers (fo_cache st2) \<and>
     (\<forall>h\<in>ran (block_header_data (fo_cache st2)). 0 < h_number h)"
proof -
  let ?b = "ex_block (ex_header 14 4 13)"
  have sub: "tl ex_sub = [(ex_node_a, SubBlock (ex_block (ex_header 13 3 12)))] @ (ex_node_b, SubBlock ?b) # []"
    by (simp add: ex_sub_def)
  have items: "list_all (item_ok ref_api ex_U) (tl ex_sub)" using ex_sub_ok by (simp add: ex_sub_def)
  obtain st2 bx where imp: "import_block ref_api ex_node_b
      (ex_loaded\<lparr>fo_cache := insert_header ref_api (fo_cache ex_loaded) (ex_header 13 3 12)\<rparr>) ?b = (st2, [bx], None)"
    using ex_best_import by blast
  have "listen_for_blocks ref_api ex_loaded [(ex_node_a, SubBlock (ex_block (ex_header 13 3 12)))] =
      (ex_loaded\<lparr>fo_cache := insert_header ref_api (fo_cache ex_loaded) (ex_header 13 3 12)\<rparr>, [], None)"
    by (simp add: listen_for_blocks_def ex_fork_import)
  from cache_pruned_to_window [OF ref_api_ok ex_headers_ok ex_nodes_ok(1) ex_numbered
      ex_loaded_load [unfolded sub] items [unfolded sub] ex_near [unfolded sub] this imp] imp
  show ?thesis by (auto simp: ex_block_def ex_header_def saturating_sub_def CACHE_HEADER_DEPTH_def)
qed

end
