(* ===== verification/Reconnect.thy ===== *)
theory Reconnect
  imports Cache_Window
begin

text \<open>
  The heights the block follower broadcasts over the sessions of \<open>listen_for_all_blocks\<close>
  (\<^verbatim>\<open>alerter/src/subspace.rs\<close>).

  Every session, the first one and each reconnection, starts from the first canonical block of
  its subscription.  While there is no reorg, the session broadcasts each height above that
  block exactly once, in order.  The block a session starts from is not broadcast itself, nor
  is any block imported while there was no connection.
\<close>

definition heights :: "blocks_ext list \<Rightarrow> nat list" where
  "heights os = map (\<lambda>b. unat (be_number b)) (concat (map bx_blocks os))"

definition no_reorg :: "blocks_ext list \<Rightarrow> bool" where
  "no_reorg os \<longleftrightarrow> list_all (\<lambda>bx. bx_maybe_reorg_data bx = None) os"

text \<open>A session of the environment: its node and its subscription keep their promises.\<close>

definition session_ok :: "chain_api \<Rightarrow> header set \<Rightarrow> session \<Rightarrow> bool" where
  "session_ok api U se \<longleftrightarrow> node_ok api U (se_load_node se) \<and>
     (\<forall>sub. se_subscribe se = Inr sub \<longrightarrow> list_all (item_ok api U) sub)"

text \<open>The recorded number of the best block is that of its header.\<close>

definition best_numbered :: "chain_api \<Rightarrow> header set \<Rightarrow> follower \<Rightarrow> bool" where
  "best_numbered api U st \<longleftrightarrow>
     (\<exists>h\<in>U. header_hash api h = hn_hash (fo_best st) \<and> h_number h = hn_number (fo_best st))"

text \<open>The numbers of the blocks the sessions of a run start from.\<close>

fun session_starts :: "chain_api \<Rightarrow> headers_metadata_cache \<Rightarrow> session list \<Rightarrow> nat list" where
  "session_starts api c [] = []"
| "session_starts api c (se # ses) =
     (case se_subscribe se of
        Inl e \<Rightarrow> []
      | Inr sub \<Rightarrow>
          (case load_header_metadata_cache api (se_load_node se) c sub of
             Some (Inr (st, rest)) \<Rightarrow>
               unat (hn_number (fo_best st)) #
               (case listen_session api c se of
                  (c', os, Some r) \<Rightarrow> if reconnects r then session_starts api c' ses else []
                | _ \<Rightarrow> [])
           | _ \<Rightarrow> []))"

lemma heights_simps [simp]:
  "heights [] = []" "heights (os @ os') = heights os @ heights os'"
  "heights [bx] = map (\<lambda>b. unat (be_number b)) (bx_blocks bx)"
  by (simp_all add: heights_def)

lemma no_reorg_append [simp]: "no_reorg (os @ os') \<longleftrightarrow> no_reorg os \<and> no_reorg os'"
  by (simp add: no_reorg_def)

section \<open>One step\<close>

text \<open>The numbers of linked blocks count up from the block they build on.\<close>

lemma linked_heights:
  assumes U: "headers_ok api U"
  shows "p \<in> U \<Longrightarrow> hlinked api U (header_hash api p) (map be_hash bs) \<Longrightarrow> list_all (genuine_ext api U) bs \<Longrightarrow>
    map (\<lambda>b. unat (be_number b)) bs = [Suc (unat (h_number p)) ..< Suc (unat (h_number p) + length bs)]"
proof (induction bs arbitrary: p)
  case (Cons b bs)
  then obtain h where h: "h \<in> U" "header_hash api h = be_hash b" "h_parent_hash h = header_hash api p"
    by auto
  moreover obtain g where "g \<in> U" "header_hash api g = be_hash b" "h_number g = be_number b"
    using Cons.prems(3) by (auto simp: genuine_ext_def)
  ultimately have "h_number h = be_number b" using header_unique [OF U, of g h] by simp
  moreover have "unat (h_number h) = Suc (unat (h_number p))"
    using U h Cons.prems(1) by (auto simp: headers_ok_def)
  ultimately show ?case using Cons.IH [OF h(1)] Cons.prems h(2) by (simp add: upt_rec)
qed simp

lemma import_heights:
  assumes st: "follower_ok api U st" and best: "best_numbered api U st" and item: "item_ok api U (nd, SubBlock b)"
    and run: "import_block api nd st b = (st', os, r)" and reorg: "no_reorg os"
  shows "best_numbered api U st' \<and> unat (hn_number (fo_best st)) \<le> unat (hn_number (fo_best st')) \<and>
    heights os = [Suc (unat (hn_number (fo_best st))) ..< Suc (unat (hn_number (fo_best st')))]"
proof -
  have U: "headers_ok api U" using st by (simp add: follower_ok_def)
  obtain p where p: "p \<in> U" "header_hash api p = hn_hash (fo_best st)" "h_number p = hn_number (fo_best st)"
    using best by (auto simp: best_numbered_def)
  consider "os = []" "fo_best st' = fo_best st"
    | bx where "os = [bx]" "hn_hash (fo_best st') = sb_hash b" "be_number (last (bx_blocks bx)) = hn_number (fo_best st')"
        "broadcast_ok api U (hn_hash (fo_best st)) (sb_hash b) bx"
    using import_block_post [OF st item] run by (auto simp: import_post_def)
  then show ?thesis
  proof cases
    case 1
    with best show ?thesis by (simp add: best_numbered_def)
  next
    case 2
    let ?bs = "bx_blocks bx"
    have bs: "?bs \<noteq> []" "list_all (genuine_ext api U) ?bs" "hlinked api U (header_hash api p) (map be_hash ?bs)"
      "be_hash (last ?bs) = sb_hash b"
      using 2(1,4) reorg p(2) by (auto simp: broadcast_ok_def base_hash_def no_reorg_def)
    from linked_heights [OF U p(1) bs(3,2)] p(3)
    have hs: "heights os = [Suc (unat (hn_number (fo_best st))) ..< Suc (unat (hn_number (fo_best st)) + length ?bs)]"
      using 2(1) by simp
    have "unat (be_number (last ?bs)) = last (heights os)" using bs(1) 2(1) by (simp add: last_map)
    then have "unat (hn_number (fo_best st')) = unat (hn_number (fo_best st)) + length ?bs"
      using hs 2(3) bs(1) by (simp add: Suc_le_eq)
    moreover have "best_numbered api U st'"
      using bs 2(2,3) by (auto simp: best_numbered_def genuine_ext_def list_all_iff) (metis last_in_set)
    ultimately show ?thesis using hs by simp
  qed
qed

section \<open>A session\<close>

lemma upt_chain: "a \<le> b \<Longrightarrow> b \<le> c \<Longrightarrow> [Suc a..<Suc b] @ [Suc b..<Suc c] = [Suc a..<Suc c]"
  by (metis Suc_le_mono le_Suc_ex upt_add_eq_append)

lemma run_heights:
  assumes "follower_ok api U st" and "best_numbered api U st" and "list_all (item_ok api U) sub"
    and "run_loop (listen_step api) st sub = (st', os, r)" and "no_reorg os"
  shows "unat (hn_number (fo_best st)) \<le> unat (hn_number (fo_best st')) \<and>
    heights os = [Suc (unat (hn_number (fo_best st))) ..< Suc (unat (hn_number (fo_best st')))]"
  using assms
proof (induction sub arbitrary: st os)
  case (Cons i sub)
  obtain t o1 q where b: "listen_step api st i = (t, o1, q)" by (metis prod_cases3)
  obtain nd x where i: "i = (nd, x)" by (cases i)
  obtain o2 where os: "os = o1 @ o2" and rest: "if q = None then run_loop (listen_step api) t sub = (st', o2, r)
      else o2 = [] \<and> st' = t"
    using Cons.prems(4) b by (cases q) (auto split: prod.splits)
  have t: "follower_ok api U t" using listen_step_post [OF Cons.prems(1) _ b] Cons.prems(3) by simp
  have step: "best_numbered api U t \<and> unat (hn_number (fo_best st)) \<le> unat (hn_number (fo_best t)) \<and>
    heights o1 = [Suc (unat (hn_number (fo_best st))) ..< Suc (unat (hn_number (fo_best t)))]"
  proof (cases x)
    case (SubBlock blk)
    with i b os Cons.prems import_heights [OF Cons.prems(1,2), of nd blk t o1 q] show ?thesis by simp
  qed (use b i Cons.prems(2) in \<open>auto simp: best_numbered_def\<close>)
  show ?case
  proof (cases q)
    case None
    with Cons.IH [OF t, of o2] step rest os Cons.prems(3,5) show ?thesis
      by (simp add: upt_chain del: upt_Suc)
  qed (use step rest os in simp)
qed simp

lemma load_best_numbered:
  assumes nd: "node_ok api U nd" and load: "load_range api nd c latest = Inr st"
  shows "best_numbered api U st"
proof -
  obtain sh where sh: "chain_get_header nd latest = Inr (Some sh)"
    and best: "fo_best st = \<lparr>hn_number = sh_number sh, hn_hash = latest\<rparr>"
    using load by (rule load_range_Inr)
  obtain h where "h \<in> U" "rebuild_header api sh = Inr h" "header_hash api h = latest"
    using nd sh by (auto simp: node_ok_def is_header_of_def)
  with best show ?thesis by (auto simp: best_numbered_def dest: rebuild_header_Inr)
qed

text \<open>One session: nothing, or the heights from its start on; the cache stays good for the next one.\<close>

lemma session_heights:
  assumes api: "chain_api_ok api" and U: "headers_ok api U" and c: "cache_within api U c"
    and se: "session_ok api U se" "se_subscribe se = Inr sub"
    and load: "load_header_metadata_cache api (se_load_node se) c sub = Some (Inr (st, rest))"
    and run: "listen_session api c se = (c', os, r)" and reorg: "no_reorg os"
  shows "cache_within api U c' \<and>
    (\<exists>e. unat (hn_number (fo_best st)) \<le> e \<and> heights os = [Suc (unat (hn_number (fo_best st))) ..< Suc e])"
proof -
  have nd: "node_ok api U (se_load_node se)" and items: "list_all (item_ok api U) sub"
    using se by (simp_all add: session_ok_def)
  from load obtain hash where first: "first_canonical sub = Some (Inr (hash, rest))"
    and range: "load_range api (se_load_node se) c hash = Inr st"
    by (auto simp: load_header_metadata_cache_def bind_res_eq_Inr split: prod.splits)
  have st: "follower_ok api U st" using load_range_headers [OF U nd c range] api U by (simp add: follower_ok_def)
  have rest: "list_all (item_ok api U) rest" using first_canonical_Inr [OF first] items by auto
  obtain st' q where loop: "run_loop (listen_step api) st rest = (st', os, q)" and c': "c' = fo_cache st'"
    using run se(2) load by (auto simp: listen_session_def listen_for_blocks_def res_simps split: prod.splits)
  have "cache_within api U c'"
    using follow.run_contract [OF st rest] loop c' by (simp add: follower_ok_def)
  with run_heights [OF st load_best_numbered [OF nd range] rest loop reorg] show ?thesis by blast
qed

lemma session_silent:
  assumes "listen_session api c se = (c', os, r)"
    and "\<not> (\<exists>sub st rest. se_subscribe se = Inr sub \<and>
      load_header_metadata_cache api (se_load_node se) c sub = Some (Inr (st, rest)))"
  shows "os = [] \<and> (\<forall>q. r = Some q \<longrightarrow> \<not> reconnects q)"
  using assms by (auto simp: listen_session_def reconnects_def res_simps split: sum.splits option.splits)

section \<open>Properties\<close>

text \<open>
  C11: Over any number of sessions without reorgs, the broadcast heights are, session by session,
  the consecutive heights that follow the block the session started from, each exactly once and
  in order.  The block a session starts from is not among them, nor is any height between the
  last block of one session and the start of the next one.
\<close>

theorem heights_per_session:
  assumes "chain_api_ok api" and "headers_ok api U" and "cache_within api U c"
    and "list_all (session_ok api U) ses"
    and "listen_for_all_blocks api c ses = (os, r)" and "no_reorg os"
  shows "\<exists>ends. list_all2 (\<le>) (session_starts api c ses) ends \<and>
    heights os = concat (map2 (\<lambda>s e. [Suc s ..< Suc e]) (session_starts api c ses) ends)"
  using assms(3-)
proof (induction ses arbitrary: c os)
  case (Cons se ses)
  obtain c' o1 q where run: "listen_session api c se = (c', o1, q)" by (metis prod_cases3)
  obtain o2 where os: "os = o1 @ o2" and more: "if \<exists>x. q = Some x \<and> reconnects x
      then listen_for_all_blocks api c' ses = (o2, r) else o2 = []"
    using Cons.prems(3) run by (cases q) (auto split: prod.splits if_splits)
  from Cons.prems(4) os have reorg: "no_reorg o1" "no_reorg o2" by simp_all
  show ?case
  proof (cases "\<exists>sub st rest. se_subscribe se = Inr sub \<and>
      load_header_metadata_cache api (se_load_node se) c sub = Some (Inr (st, rest))")
    case False
    with session_silent [OF run] more os have "os = []" by auto
    moreover have "session_starts api c (se # ses) = []"
      using False by (auto split: sum.splits option.splits)
    ultimately show ?thesis by simp
  next
    case True
    then obtain sub st rest where sub: "se_subscribe se = Inr sub"
      and load: "load_header_metadata_cache api (se_load_node se) c sub = Some (Inr (st, rest))" by blast
    from session_heights [OF assms(1,2) Cons.prems(1) _ sub load run reorg(1)] Cons.prems(2)
    obtain e where c': "cache_within api U c'" and e: "unat (hn_number (fo_best st)) \<le> e"
      "heights o1 = [Suc (unat (hn_number (fo_best st))) ..< Suc e]" by auto
    show ?thesis
    proof (cases "\<exists>x. q = Some x \<and> reconnects x")
      case True
      with more have "listen_for_all_blocks api c' ses = (o2, r)" by simp
      from Cons.IH [OF c' _ this reorg(2)] Cons.prems(2) obtain ends
        where "list_all2 (\<le>) (session_starts api c' ses) ends"
          "heights o2 = concat (map2 (\<lambda>s e. [Suc s ..< Suc e]) (session_starts api c' ses) ends)" by auto
      with True e sub load run os show ?thesis by (intro exI [of _ "e # ends"]) (auto simp del: upt_Suc)
    next
      case False
      then have "session_starts api c (se # ses) = [unat (hn_number (fo_best st))]"
        using sub load run by (auto split: option.splits)
      with False more e os show ?thesis by (intro exI [of _ "[e]"]) (auto simp del: upt_Suc session_starts.simps)
    qed
  qed
qed simp

text \<open>
  On the example chain: the first session starts at block 1 and broadcasts block 12 at height
  2; the connection is lost; the second session starts at block 13, at height 3, and
  broadcasts block 14 at height 4.
\<close>

definition ex_node_down :: node where
  "ex_node_down = ex_node_b\<lparr>chain_get_block_hash := (\<lambda>n. Inl ''connection closed'')\<rparr>"

definition ex_sessions :: "session list" where
  "ex_sessions =
     [\<lparr>se_subscribe = Inr [(ex_node_b, SubBlock (ex_block (ex_header 1 1 0))),
                           (ex_node_b, SubBlock (ex_block (ex_header 12 2 1))),
                           (ex_node_down, SubBlock (ex_block (ex_header 13 3 12)))], se_load_node = ex_node_b\<rparr>,
      \<lparr>se_subscribe = Inr [(ex_node_b, SubBlock (ex_block (ex_header 13 3 12))),
                           (ex_node_b, SubBlock (ex_block (ex_header 14 4 13)))], se_load_node = ex_node_b\<rparr>]"

lemma ex_sessions_ok: "list_all (session_ok ref_api ex_U) ex_sessions"
proof -
  have "node_ok ref_api ex_U ex_node_down"
    using ex_nodes_ok(2) by (simp add: node_ok_def ex_node_down_def)
  moreover have "ex_header 1 1 0 \<in> ex_U" "ex_header 12 2 1 \<in> ex_U" "ex_header 13 3 12 \<in> ex_U" "ex_header 14 4 13 \<in> ex_U"
    by (simp_all add: ex_U_def)
  ultimately show ?thesis by (simp add: session_ok_def ex_sessions_def ex_item_ok ex_nodes_ok)
qed

lemmas ex_session_eval = load_header_metadata_cache_def load_range_def range_incl_def upt_rec canonical_header_def
  saturating_sub_def CACHE_HEADER_DEPTH_def listen_session_def listen_for_blocks_def reconnects_def
  remove_header_until.simps ex_eval

lemma ex_sessions_run:
  "\<exists>os. listen_for_all_blocks ref_api default_cache ex_sessions = (os, None) \<and> no_reorg os \<and> heights os = [2, 4]"
  by (simp add: ex_sessions_def ex_node_down_def ex_session_eval heights_def no_reorg_def)

lemma ex_sessions_starts: "session_starts ref_api default_cache ex_sessions = [1, 3]"
  by (simp add: ex_sessions_def ex_node_down_def ex_session_eval)

theorem heights_per_session_witness:
  "\<exists>os. listen_for_all_blocks ref_api default_cache ex_sessions = (os, None) \<and> heights os = [2, 4] \<and>
     (\<exists>ends. list_all2 (\<le>) [1, 3] ends \<and> heights os = concat (map2 (\<lambda>s e. [Suc s ..< Suc e]) [1, 3] ends))"
proof -
  have "cache_within ref_api ex_U default_cache"
    by (simp add: cache_within_def) (simp add: default_cache_def)
  from heights_per_session [OF ref_api_ok ex_headers_ok this ex_sessions_ok] ex_sessions_run ex_sessions_starts
  show ?thesis by fastforce
qed

end
