(* ===== verification/System_Runs.thy ===== *)
theory System_Runs
  imports System Reconnect
begin

text \<open>
  Every run of the program is an interleaving of runs of its tasks: at each reachable state, the
  state of a task is the one its own loop reaches on some inputs, the broadcasts are those of
  \<open>listen_for_all_blocks\<close> over some sessions, what the monitors have received is the beginning
  of what was broadcast, and the alerts in the channel interleave the outputs of the three
  monitors.  So what is proved of each task alone holds of the whole program.
\<close>

section \<open>The follower over its sessions\<close>

text \<open>Sessions that all ended in a reconnection: the cache they leave and what they broadcast.\<close>

fun complete_sessions ::
  "chain_api \<Rightarrow> headers_metadata_cache \<Rightarrow> session list \<Rightarrow> (headers_metadata_cache \<times> blocks_ext list) option" where
  "complete_sessions api c [] = Some (c, [])"
| "complete_sessions api c (se # ses) =
     (case listen_session api c se of
        (c', os, Some r) \<Rightarrow>
          if reconnects r then map_option (\<lambda>(c'', os'). (c'', os @ os')) (complete_sessions api c' ses) else None
      | _ \<Rightarrow> None)"

lemma complete_then:
  "complete_sessions api c ses = Some (c', os) \<Longrightarrow> listen_for_all_blocks api c' rest = (os', r) \<Longrightarrow>
   listen_for_all_blocks api c (ses @ rest) = (os @ os', r)"
  by (induction ses arbitrary: c os) (fastforce split: prod.splits option.splits if_splits)+

lemma complete_snoc:
  "complete_sessions api c ses = Some (c', os) \<Longrightarrow> listen_session api c' se = (c'', os', Some r) \<Longrightarrow> reconnects r \<Longrightarrow>
   complete_sessions api c (ses @ [se]) = Some (c'', os @ os')"
  by (induction ses arbitrary: c os) (fastforce split: prod.splits option.splits if_splits)+

lemma first_canonical_append:
  "first_canonical sub = Some (Inr (hash, rest)) \<Longrightarrow> first_canonical (sub @ next_items) = Some (Inr (hash, rest @ next_items))"
  by (induction sub rule: first_canonical.induct) (auto split: sum.splits bool.splits)

lemma load_append:
  "load_header_metadata_cache api nd c sub = Some (Inr (st, rest)) \<Longrightarrow>
   load_header_metadata_cache api nd c (sub @ next_items) = Some (Inr (st, rest @ next_items))"
proof -
  assume "load_header_metadata_cache api nd c sub = Some (Inr (st, rest))"
  then obtain hash where "first_canonical sub = Some (Inr (hash, rest))" and "load_range api nd c hash = Inr st"
    by (auto simp: load_header_metadata_cache_def bind_res_eq_Inr split: prod.splits)
  with first_canonical_append show ?thesis by (simp add: load_header_metadata_cache_def)
qed

text \<open>The session under way: it was loaded and has followed the items \<open>pre\<close>.\<close>

definition under_way ::
  "chain_api \<Rightarrow> header set \<Rightarrow> headers_metadata_cache \<Rightarrow> session \<Rightarrow> follower \<Rightarrow> blocks_ext list \<Rightarrow> bool" where
  "under_way api U c se fo os \<longleftrightarrow> (\<exists>sub st pre.
     se_subscribe se = Inr (sub @ pre) \<and> session_ok api U se \<and>
     load_header_metadata_cache api (se_load_node se) c sub = Some (Inr (st, [])) \<and>
     run_loop (listen_step api) st pre = (fo, os, None))"

lemma under_way_session:
  assumes "under_way api U c se fo os"
  shows "session_ok api U se \<and> listen_session api c se = (fo_cache fo, os, None)"
proof -
  obtain sub st pre where "se_subscribe se = Inr (sub @ pre)" "session_ok api U se"
    and load: "load_header_metadata_cache api (se_load_node se) c sub = Some (Inr (st, []))"
    and "run_loop (listen_step api) st pre = (fo, os, None)"
    using assms by (auto simp: under_way_def)
  with load_append [OF load, of pre] show ?thesis
    by (simp add: listen_session_def listen_for_blocks_def res_simps)
qed

lemma under_way_step:
  assumes "under_way api U c se fo os" and "item_ok api U item" and "listen_step api fo item = (fo', os', r)"
  shows "\<exists>se'. session_ok api U se' \<and> (r = None \<longrightarrow> under_way api U c se' fo' (os @ os')) \<and>
    listen_session api c se' = (fo_cache fo', os @ os', map_option (Pair True) r)"
proof -
  obtain sub st pre where se: "se_subscribe se = Inr (sub @ pre)" "session_ok api U se"
    and load: "load_header_metadata_cache api (se_load_node se) c sub = Some (Inr (st, []))"
    and run: "run_loop (listen_step api) st pre = (fo, os, None)"
    using assms(1) by (auto simp: under_way_def)
  let ?se = "se\<lparr>se_subscribe := Inr (sub @ pre @ [item])\<rparr>"
  have ok: "session_ok api U ?se" using se assms(2) by (simp add: session_ok_def)
  have run': "run_loop (listen_step api) st (pre @ [item]) = (fo', os @ os', r)"
    using run_loop_append [OF run, of "[item]"] assms(3) by (cases r) simp_all
  then have "listen_session api c ?se = (fo_cache fo', os @ os', map_option (Pair True) r)"
    using load_append [OF load, of "pre @ [item]"] by (simp add: listen_session_def listen_for_blocks_def res_simps)
  moreover have "r = None \<longrightarrow> under_way api U c ?se fo' (os @ os')"
    using ok load run' by (auto simp: under_way_def)
  ultimately show ?thesis using ok by blast
qed

definition follower_runs :: "('dec, 'evs) setting \<Rightarrow> follower_task \<Rightarrow> blocks_ext list \<Rightarrow> bool" where
  "follower_runs env task blocks \<longleftrightarrow> (\<exists>ses c os. list_all (session_ok (st_api env) (st_headers env)) ses \<and>
     complete_sessions (st_api env) default_cache ses = Some (c, os) \<and>
     (case task of
        Connecting c' \<Rightarrow> c' = c \<and> blocks = os
      | Following fo \<Rightarrow> \<exists>se os'. under_way (st_api env) (st_headers env) c se fo os' \<and> blocks = os @ os'))"

lemma follower_runs_session:
  assumes "follower_runs env task blocks"
  shows "\<exists>ses. list_all (session_ok (st_api env) (st_headers env)) ses \<and>
    listen_for_all_blocks (st_api env) default_cache ses = (blocks, None)"
proof -
  obtain ses c os where ses: "list_all (session_ok (st_api env) (st_headers env)) ses"
    and fin: "complete_sessions (st_api env) default_cache ses = Some (c, os)"
    and at: "case task of
        Connecting c' \<Rightarrow> c' = c \<and> blocks = os
      | Following fo \<Rightarrow> \<exists>se os'. under_way (st_api env) (st_headers env) c se fo os' \<and> blocks = os @ os'"
    using assms by (auto simp: follower_runs_def)
  show ?thesis
  proof (cases task)
    case (Connecting c')
    with at complete_then [OF fin, of "[]" "[]" None] ses show ?thesis by auto
  next
    case (Following fo)
    with at obtain se os' where "under_way (st_api env) (st_headers env) c se fo os'" "blocks = os @ os'" by auto
    with under_way_session [of "st_api env" "st_headers env" c se fo os'] complete_then [OF fin, of "[se]" os' None] ses
    show ?thesis by (intro exI [of _ "ses @ [se]"]) simp
  qed
qed

lemma system_step_follower:
  assumes "system_step env s t" and "follower_runs env (sy_follower s) (sy_blocks s)"
  shows "follower_runs env (sy_follower t) (sy_blocks t)"
  using assms
proof (cases rule: system_step.cases)
  case (connect c nd sub fo)
  with assms(2) obtain ses os where ses: "list_all (session_ok (st_api env) (st_headers env)) ses"
    "complete_sessions (st_api env) default_cache ses = Some (c, os)" "sy_blocks s = os"
    by (auto simp: follower_runs_def)
  have "under_way (st_api env) (st_headers env) c \<lparr>se_subscribe = Inr (sub @ []), se_load_node = nd\<rparr> fo []"
    unfolding under_way_def using connect
    by (intro exI [of _ sub] exI [of _ fo] exI [of _ "[]"]) (simp add: session_ok_def)
  with ses connect show ?thesis by (fastforce simp: follower_runs_def)
next
  case (follow fo item fo' sent)
  with assms(2) obtain ses c os se os' where ses: "list_all (session_ok (st_api env) (st_headers env)) ses"
    "complete_sessions (st_api env) default_cache ses = Some (c, os)" "sy_blocks s = os @ os'"
    and se: "under_way (st_api env) (st_headers env) c se fo os'"
    by (auto simp: follower_runs_def)
  from under_way_step [OF se follow(3,4)] ses follow show ?thesis by (fastforce simp: follower_runs_def)
next
  case (reconnect fo item fo' sent f)
  with assms(2) obtain ses c os se os' where ses: "list_all (session_ok (st_api env) (st_headers env)) ses"
    "complete_sessions (st_api env) default_cache ses = Some (c, os)" "sy_blocks s = os @ os'"
    and se: "under_way (st_api env) (st_headers env) c se fo os'"
    by (auto simp: follower_runs_def)
  obtain se' where "session_ok (st_api env) (st_headers env) se'"
    and "listen_session (st_api env) c se' = (fo_cache fo', os' @ sent, Some (True, f))"
    using under_way_step [OF se reconnect(3,4)] by auto
  with complete_snoc [OF ses(2)] reconnect ses show ?thesis
    unfolding follower_runs_def by (intro exI [of _ "ses @ [se']"] exI [of _ "fo_cache fo'"]) fastforce
qed (use assms(2) in simp_all)

section \<open>The monitors\<close>

definition event_runs :: "'evs finders \<Rightarrow> 'evs client set \<Rightarrow> accounts \<Rightarrow> blocks_ext list \<Rightarrow> alert list \<Rightarrow> bool" where
  "event_runs f C m got outs \<longleftrightarrow>
     (\<exists>ins. run_loop (events_step f) m ins = (m, outs, None) \<and> map snd ins = map Inr got \<and> fst ` set ins \<subseteq> C)"

lemma event_runs_recv:
  assumes "event_runs f C m got outs" and "events_step f m (cl, Inr bx) = (m', os, None)" and "cl \<in> C"
  shows "event_runs f C m (got @ [bx]) (outs @ os)"
proof -
  obtain ins where ins: "run_loop (events_step f) m ins = (m, outs, None)" "map snd ins = map Inr got" "fst ` set ins \<subseteq> C"
    using assms(1) by (auto simp: event_runs_def)
  have "m' = m" using assms(2) by (auto split: prod.splits)
  with run_loop_snoc [OF ins(1) assms(2)] ins(2,3) assms(3) show ?thesis
    unfolding event_runs_def by (intro exI [of _ "ins @ [(cl, Inr bx)]"]) simp
qed

definition monitor_runs :: "('dec, 'evs) setting \<Rightarrow> system \<Rightarrow> alert list \<Rightarrow> alert list \<Rightarrow> alert list \<Rightarrow> bool" where
  "monitor_runs env s chain event slot \<longleftrightarrow>
     timed_runs (watch_step (st_chain_cfg env)) watch_init (sy_chain s) (take (sy_chain_pos s) (sy_blocks s)) chain \<and>
     event_runs (st_finders env) (st_clients env) (st_accounts env) (take (sy_event_pos s) (sy_blocks s)) event \<and>
     (\<exists>now. timed_runs (monitor_step (st_push env) (st_slots_cfg env)) (monitor_init now) (sy_slots s)
        (take (sy_slot_pos s) (sy_proofs s)) slot) \<and>
     sy_alerts s \<in> interleave3 chain event slot"

text \<open>More in a log changes nothing for those who have not read it.\<close>

lemma monitor_runs_logs:
  assumes "monitor_runs env s chain event slot" and "sources_ok env s"
    and "sy_blocks t = sy_blocks s @ bs" and "sy_proofs t = sy_proofs s @ ps"
    and "sy_chain t = sy_chain s" "sy_chain_pos t = sy_chain_pos s" "sy_event_pos t = sy_event_pos s"
    "sy_slots t = sy_slots s" "sy_slot_pos t = sy_slot_pos s" "sy_alerts t = sy_alerts s"
  shows "monitor_runs env t chain event slot"
  using assms by (simp add: monitor_runs_def sources_ok_def)

lemma system_step_monitors:
  assumes "system_step env s t" and src: "sources_ok env s" and inv: "monitor_runs env s chain event slot"
  shows "\<exists>chain event slot. monitor_runs env t chain event slot"
  using assms(1)
proof (cases rule: system_step.cases)
  case (chain_receive r w as)
  then obtain bx where r: "r = Inr bx" using step_recv_Inr(1) by blast
  with chain_receive inv chan_recv_Inr have "monitor_runs env t (chain @ as) event slot"
    by (fastforce simp: monitor_runs_def simp del: watch_step.simps intro: timed_runs_recv interleave3_append)
  then show ?thesis by blast
next
  case (chain_timeout w as)
  with inv have "monitor_runs env t (chain @ as) event slot"
    by (auto simp: monitor_runs_def simp del: watch_step.simps intro: timed_runs_elapsed interleave3_append)
  then show ?thesis by blast
next
  case (event_receive r cl m as)
  then obtain bx where r: "r = Inr bx" using step_recv_Inr(2) by blast
  with event_receive inv chan_recv_Inr have "monitor_runs env t chain (event @ as) slot"
    by (fastforce simp: monitor_runs_def simp del: events_step.simps intro: event_runs_recv interleave3_append)
  then show ?thesis by blast
next
  case (slot_receive r m as)
  then obtain p where r: "r = Inr p" using step_recv_Inr(3) by blast
  with slot_receive inv chan_recv_Inr have "monitor_runs env t chain event (slot @ as)"
    by (fastforce simp: monitor_runs_def simp del: monitor_step.simps intro: timed_runs_recv interleave3_append)
  then show ?thesis by blast
next
  case (slot_timeout m as)
  with inv have "monitor_runs env t chain event (slot @ as)"
    by (auto simp: monitor_runs_def simp del: monitor_step.simps intro: timed_runs_elapsed interleave3_append)
  then show ?thesis by blast
next
  case (connect c nd sub fo)
  with monitor_runs_logs [OF inv src, of t "[]" "[]"] show ?thesis by auto
next
  case (follow fo item fo' sent)
  with monitor_runs_logs [OF inv src, of t sent "[]"] show ?thesis by auto
next
  case (reconnect fo item fo' sent f)
  with monitor_runs_logs [OF inv src, of t sent "[]"] show ?thesis by auto
next
  case (network i nw acts)
  with monitor_runs_logs [OF inv src, of t "[]" "sent_proofs acts"] show ?thesis by auto
next
  case (slack_post answers sa calls)
  with monitor_runs_logs [OF inv src, of t "[]" "[]"] show ?thesis by auto
next
  case (uptime url every answer u reqs)
  with monitor_runs_logs [OF inv src, of t "[]" "[]"] show ?thesis by auto
qed

section \<open>The network and the Slack task\<close>

definition network_runs :: "('dec, 'evs) setting \<Rightarrow> system \<Rightarrow> bool" where
  "network_runs env s \<longleftrightarrow>
     (\<exists>ins acts. run_loop net_step (st_network env) ins = (sy_network s, acts, None) \<and> sent_proofs acts = sy_proofs s)"

definition slack_runs :: "('dec, 'evs) setting \<Rightarrow> system \<Rightarrow> bool" where
  "slack_runs env s \<longleftrightarrow>
     sy_posts s = posts_for (st_format_env env) (st_format_cfg env) (st_slack env) (take (sy_posted s) (sy_alerts s))"

definition uptime_runs :: "('dec, 'evs) setting \<Rightarrow> system \<Rightarrow> bool" where
  "uptime_runs env s \<longleftrightarrow>
     list_all (\<lambda>r. \<exists>url every. st_uptime env = Some (url, every) \<and> r = uptime_url url every) (sy_pushes s)"

lemma slack_step_posts:
  "slack_step http env cfg sa (Some a, answers) = (sa', calls, None) \<Longrightarrow> map cp_request calls = posts_for env cfg sa [a]"
  by (simp add: slack_step_ok posts_for_def chat_post_for_def del: slack_step.simps)

lemma posts_for_append [simp]: "posts_for env cfg sa (xs @ ys) = posts_for env cfg sa xs @ posts_for env cfg sa ys"
  by (simp add: posts_for_def)

lemma network_runs_task:
  assumes "network_runs env s"
  shows "\<exists>net acts. run_network (st_network env) net = (sy_network s, acts, None) \<and> sy_proofs s = concat (map notified_proof net)"
proof -
  obtain net acts where run: "run_loop net_step (st_network env) net = (sy_network s, acts, None)" "sent_proofs acts = sy_proofs s"
    using assms by (auto simp: network_runs_def)
  with run_loop_net [OF run(1)] show ?thesis
    by (intro exI [of _ net] exI [of _ "dial_bootnodes (st_network env) @ acts"]) (simp add: run_network_def)
qed

lemma system_step_network:
  assumes "system_step env s t" and "network_runs env s"
  shows "network_runs env t"
  using assms
proof (cases rule: system_step.cases)
  case (network i nw acts)
  obtain ins acts0 where "run_loop net_step (st_network env) ins = (sy_network s, acts0, None)" "sent_proofs acts0 = sy_proofs s"
    using assms(2) by (auto simp: network_runs_def)
  with run_loop_snoc [of net_step "st_network env" ins _ acts0 i nw acts] network show ?thesis
    unfolding network_runs_def by (intro exI [of _ "ins @ [i]"]) simp
qed (auto simp: network_runs_def)

lemma system_step_slack:
  assumes "system_step env s t" and "sources_ok env s" and "slack_runs env s"
  shows "slack_runs env t"
  using assms
proof (cases rule: system_step.cases)
  case (slack_post answers sa calls)
  with assms(3) slack_step_posts [OF slack_post(3)] show ?thesis
    by (simp add: slack_runs_def take_Suc_conv_app_nth del: slack_step.simps)
qed (auto simp: slack_runs_def sources_ok_def)

lemma system_step_uptime:
  assumes "system_step env s t" and "uptime_runs env s"
  shows "uptime_runs env t"
  using assms
proof (cases rule: system_step.cases)
  case (uptime url every answer u reqs)
  then have "reqs = [uptime_url url every]" by (cases answer) (auto split: if_splits)
  with uptime assms(2) show ?thesis by (simp add: uptime_runs_def)
qed (auto simp: uptime_runs_def)

section \<open>The whole program\<close>

definition task_runs :: "('dec, 'evs) setting \<Rightarrow> system \<Rightarrow> bool" where
  "task_runs env s \<longleftrightarrow> follower_runs env (sy_follower s) (sy_blocks s) \<and> network_runs env s \<and> slack_runs env s \<and>
     uptime_runs env s \<and> account_mapped_name (st_from_str env) Map.empty (st_account_list env) = Inr (st_accounts env) \<and>
     (\<exists>chain event slot. monitor_runs env s chain event slot)"

lemma system_start_runs: "system_start env s \<Longrightarrow> task_runs env s"
proof -
  assume "system_start env s"
  then obtain now where s: "s = system_init (st_network env) now"
    and acc: "account_mapped_name (st_from_str env) Map.empty (st_account_list env) = Inr (st_accounts env)"
    by (auto simp: system_start_def)
  have "follower_runs env (sy_follower s) (sy_blocks s)"
    unfolding follower_runs_def by (intro exI [of _ "[]"]) (simp add: s system_init_def)
  moreover have "network_runs env s"
    unfolding network_runs_def by (intro exI [of _ "[]"]) (simp add: s system_init_def sent_proofs_def)
  moreover have "event_runs (st_finders env) (st_clients env) (st_accounts env) [] []"
    unfolding event_runs_def by (intro exI [of _ "[]"]) simp
  then have "monitor_runs env s [] [] []"
    by (auto simp: monitor_runs_def s system_init_def interleave3_Nil intro: timed_runs_init)
  moreover have "slack_runs env s" by (simp add: slack_runs_def s system_init_def posts_for_def)
  moreover have "uptime_runs env s" by (simp add: uptime_runs_def s system_init_def)
  ultimately show ?thesis using acc by (auto simp: task_runs_def)
qed

lemma system_step_runs:
  assumes "reachable env s" and "task_runs env s" and "system_step env s t"
  shows "task_runs env t"
proof -
  note src = sources.reach_inv [OF assms(1)]
  obtain chain event slot where "monitor_runs env s chain event slot" using assms(2) by (auto simp: task_runs_def)
  note monitors = system_step_monitors [OF assms(3) src this]
  show ?thesis
    using assms(2) monitors system_step_follower [OF assms(3)] system_step_network [OF assms(3)]
      system_step_slack [OF assms(3) src] system_step_uptime [OF assms(3)]
    by (simp add: task_runs_def)
qed

interpretation runs: step_invariant "system_start env" "system_step env" "task_runs env"
  for env :: "('dec, 'evs) setting"
  by unfold_locales (auto intro: system_start_runs system_step_runs)

section \<open>Consequences\<close>

lemma received_reorgs:
  "concat (map (reorg_due cfg) ins) = concat (map (\<lambda>bx. reorg_due cfg (Recv (Inr bx))) (received ins))"
  by (induction ins rule: received.induct) (simp_all del: reorg_due.simps(1))

lemma received_watch_ok:
  "list_all (\<lambda>bx. watch_input_ok (Recv (Inr bx))) (received ins) \<Longrightarrow> list_all watch_input_ok ins"
  by (induction ins rule: received.induct) simp_all

lemma received_clock_ok: "list_all clocked (received ins) \<Longrightarrow> list_all clock_ok ins"
  by (induction ins rule: received.induct) simp_all

lemma reorgs_nil: "(\<And>a. a \<in> set as \<Longrightarrow> (\<forall>r. a \<noteq> Reorg r)) \<Longrightarrow> reorgs as = []"
  by (induction as) (auto simp: reorgs_def split: alert.splits)

lemma list_all_take: "list_all P xs \<Longrightarrow> list_all P (take n xs)"
  by (auto simp: list_all_iff dest: in_set_takeD)

lemma chain_inputs_ok:
  assumes "sources_ok env s" and "received ins = take n (sy_blocks s)"
  shows "list_all watch_input_ok ins"
proof -
  have "list_all (\<lambda>bx. watch_input_ok (Recv (Inr bx))) (sy_blocks s)"
    using assms(1) some_broadcast_input by (auto simp: sources_ok_def list_all_iff simp del: watch_input_ok.simps)
  then show ?thesis using received_watch_ok [of ins] list_all_take unfolding assms(2) by blast
qed

lemma chain_run_reorgs:
  assumes "sources_ok env s" and "monitor_runs env s chain event slot"
  shows "reorgs chain = concat (map (\<lambda>bx. reorg_due (st_chain_cfg env) (Recv (Inr bx))) (take (sy_chain_pos s) (sy_blocks s)))"
proof -
  obtain ins where run: "run_loop (watch_step (st_chain_cfg env)) watch_init ins = (sy_chain s, chain, None)"
    and got: "received ins = take (sy_chain_pos s) (sy_blocks s)"
    using assms(2) by (auto simp: monitor_runs_def timed_runs_def)
  have "list_all watch_input_ok ins" using chain_inputs_ok [OF assms(1) got] .
  from run_watch_reorgs [OF this run] show ?thesis by (simp only: received_reorgs got)
qed

lemma other_run_reorgs:
  assumes "sources_ok env s" and "monitor_runs env s chain event slot"
  shows "reorgs event = [] \<and> reorgs slot = []"
proof -
  obtain eins now sins where e: "run_loop (events_step (st_finders env)) (st_accounts env) eins = (st_accounts env, event, None)"
    and m: "run_loop (monitor_step (st_push env) (st_slots_cfg env)) (monitor_init now) sins = (sy_slots s, slot, None)"
    using assms(2) by (auto simp: monitor_runs_def timed_runs_def event_runs_def)
  have "monitor_ok (st_push env) (monitor_init now)"
    using assms(1) by (auto simp: sources_ok_def monitor_ok_def monitor_init_def)
  then have "list_all (slot_alert_ok (st_slots_cfg env)) slot" using slots_any.run_out [OF _ _ m] by (simp add: list_all_iff)
  then have "reorgs slot = []" by (intro reorgs_nil) (auto simp: list_all_iff)
  moreover have "reorgs event = []" using events.run_out [OF _ _ e] by (intro reorgs_nil) (auto simp: list_all_iff)
  ultimately show ?thesis by blast
qed

lemma reachable_reorgs:
  assumes "reachable env s"
  shows "reorgs (sy_alerts s) =
    concat (map (\<lambda>bx. reorg_due (st_chain_cfg env) (Recv (Inr bx))) (take (sy_chain_pos s) (sy_blocks s)))"
proof -
  from runs.reach_inv [OF assms] obtain chain event slot where m: "monitor_runs env s chain event slot"
    by (auto simp: task_runs_def)
  then have "sy_alerts s \<in> interleave3 chain event slot" by (simp add: monitor_runs_def)
  with other_run_reorgs [OF sources.reach_inv [OF assms] m] have "reorgs (sy_alerts s) = reorgs chain"
    unfolding reorgs_def by (intro concat_map_interleave3) blast+
  with chain_run_reorgs [OF sources.reach_inv [OF assms] m] show ?thesis by simp
qed

section \<open>Steps that are always possible\<close>

lemma chain_receive_step:
  assumes src: "sources_ok env s" and recv: "chan_recv (st_lag env) (sy_blocks s) (sy_chain_pos s) = Some (Inr bx)"
  shows "\<exists>t. system_step env s t \<and> sy_chain_pos t = Suc (sy_chain_pos s) \<and> sy_blocks t = sy_blocks s"
proof -
  have "bx_blocks bx \<noteq> []" using some_broadcast_input [OF received_broadcast [OF src recv]] by simp
  then obtain w as where "watch_step (st_chain_cfg env) (sy_chain s) (Recv (Inr bx)) = (w, as, None)"
    by (simp add: Let_def)
  from system_step.chain_receive [OF recv this] show ?thesis by fastforce
qed

lemma event_receive_step:
  assumes "chan_recv (st_lag env) (sy_blocks s) (sy_event_pos s) = Some (Inr bx)"
    and "cl \<in> st_clients env" and "list_all (\<lambda>b. readable (block_report (st_finders env) (st_accounts env) cl b)) (bx_blocks bx)"
  shows "\<exists>t. system_step env s t \<and> sy_event_pos t = Suc (sy_event_pos s) \<and> sy_blocks t = sy_blocks s"
proof -
  have "events_step (st_finders env) (st_accounts env) (cl, Inr bx) =
      (st_accounts env, round_alerts (st_finders env) (st_accounts env) (cl, Inr bx), None)"
    using assms(3) by (simp add: events_step_ok del: events_step.simps round_alerts.simps)
  from system_step.event_receive [OF assms(1,2) this] show ?thesis by fastforce
qed

lemma monitor_recv_goes_on:
  assumes "window_clocked push s" and "clocked p" and "last_slot s \<noteq> Some (- 1)"
  shows "\<exists>s' os. monitor_step push cfg s (Recv (Inr p)) = (s', os, None)"
proof -
  obtain s' os r where b: "monitor_step push cfg s (Recv (Inr p)) = (s', os, r)" by (metis prod_cases3)
  show ?thesis
  proof (cases rule: recv_cases [where s = s and p = p])
    case (extends n)
    with monitor_step_next [OF extends] extend_slots_clocked(1) [OF assms(1,2)] show ?thesis by simp
  qed (use assms(3) monitor_step_first monitor_step_stale in blast)+
qed

text \<open>With clock readings in range, the slot monitor's window is.\<close>

lemma monitor_run_clocked:
  assumes "sources_ok env s" and "monitor_runs env s chain event slot" and "list_all clocked (sy_proofs s)"
  shows "window_clocked (st_push env) (sy_slots s)"
proof -
  obtain now sins where m: "run_loop (monitor_step (st_push env) (st_slots_cfg env)) (monitor_init now) sins = (sy_slots s, slot, None)"
    and got: "received sins = take (sy_slot_pos s) (sy_proofs s)"
    using assms(2) by (auto simp: monitor_runs_def timed_runs_def)
  have "list_all clock_ok sins" using received_clock_ok [of sins] list_all_take [OF assms(3)] unfolding got by blast
  moreover have "force_push_ok (st_push env)" using assms(1) by (simp add: sources_ok_def monitor_ok_def)
  ultimately show ?thesis using slots_clock.run_inv [OF window_clocked_init _ m] by blast
qed

lemma reachable_clocked:
  assumes "reachable env s" and "list_all clocked (sy_proofs s)"
  shows "window_clocked (st_push env) (sy_slots s)"
  using monitor_run_clocked [OF sources.reach_inv [OF assms(1)] _ assms(2)] runs.reach_inv [OF assms(1)]
  by (auto simp: task_runs_def)

lemma slot_receive_step:
  assumes r: "reachable env s" and clock: "list_all clocked (sy_proofs s)" and last: "last_slot (sy_slots s) \<noteq> Some (- 1)"
    and recv: "chan_recv (st_lag env) (sy_proofs s) (sy_slot_pos s) = Some (Inr p)"
  shows "\<exists>t as. system_step env s t \<and> sy_slot_pos t = Suc (sy_slot_pos s) \<and> sy_proofs t = sy_proofs s \<and>
    monitor_step (st_push env) (st_slots_cfg env) (sy_slots s) (Recv (Inr p)) = (sy_slots t, as, None)"
proof -
  have "clocked p" using clock chan_recv_Inr [OF recv] by (auto simp: list_all_length)
  with reachable_clocked [OF r clock] last
  obtain m as where m: "monitor_step (st_push env) (st_slots_cfg env) (sy_slots s) (Recv (Inr p)) = (m, as, None)"
    using monitor_recv_goes_on by blast
  from system_step.slot_receive [OF recv m] m show ?thesis by fastforce
qed

lemma slack_post_step:
  assumes "sy_posted s < length (sy_alerts s)" and "\<not> isl (format_alert (st_format_env env) (st_format_cfg env) (sy_alerts s ! sy_posted s))"
  shows "\<exists>t. system_step env s t \<and> sy_posted t = Suc (sy_posted s) \<and> sy_alerts t = sy_alerts s"
proof -
  have "slack_step (st_http env) (st_format_env env) (st_format_cfg env) (st_slack env) (Some (sy_alerts s ! sy_posted s), \<lambda>_. Accepted) =
      (st_slack env, [chat_post_for (st_http env) (st_format_env env) (st_format_cfg env) (st_slack env) (sy_alerts s ! sy_posted s) (\<lambda>_. Accepted)], None)"
    using assms(2) by (simp add: slack_step_ok formats_def del: slack_step.simps)
  from system_step.slack_post [OF assms(1) this] show ?thesis by fastforce
qed

lemma network_step:
  "\<exists>t. system_step env s t \<and> sy_proofs t = sy_proofs s @ notified_proof i \<and> sy_slot_pos t = sy_slot_pos s \<and> sy_slots t = sy_slots s"
proof -
  obtain nw acts where n: "net_step (sy_network s) i = (nw, acts, None)" using net_step_shape by blast
  from system_step.network [OF n] net_step_sent [OF n] show ?thesis by fastforce
qed

lemma reachable_follow:
  assumes "reachable env s" and "sy_follower s = Following fo" and "list_all (item_ok (st_api env) (st_headers env)) sub"
    and "run_loop (listen_step (st_api env)) fo sub = (fo', sent, None)"
  shows "reachable env (s\<lparr>sy_follower := Following fo', sy_blocks := sy_blocks s @ sent\<rparr>)"
  using assms
proof (induction sub arbitrary: s fo sent)
  case (Cons item sub)
  obtain fo1 o1 r where b: "listen_step (st_api env) fo item = (fo1, o1, r)" by (metis prod_cases3)
  with Cons.prems(4) obtain o2 where r: "r = None" and "run_loop (listen_step (st_api env)) fo1 sub = (fo', o2, None)"
    and "sent = o1 @ o2" by (cases r) (auto split: prod.splits)
  moreover have "reachable env (s\<lparr>sy_follower := Following fo1, sy_blocks := sy_blocks s @ o1\<rparr>)"
    using reach_step [OF Cons.prems(1)] system_step.follow [OF Cons.prems(2) _ b [unfolded r]] Cons.prems(3) by simp
  ultimately show ?case
    using Cons.IH [of "s\<lparr>sy_follower := Following fo1, sy_blocks := sy_blocks s @ o1\<rparr>" fo1 o2] Cons.prems(3) by simp
next
  case Nil
  then have "s\<lparr>sy_follower := Following fo', sy_blocks := sy_blocks s @ sent\<rparr> = s" by simp
  then show ?case using Nil.prems(1) by (simp only:)
qed

section \<open>An example run\<close>

definition ex_network :: network where
  "ex_network = \<lparr>nw_swarm = swarm_of plain_swarm_env 7, nw_bootnodes = [], nw_authorities = {}, nw_fullnodes = {}\<rparr>"

definition ex_setting :: "(nat, unit) setting" where
  "ex_setting =
     \<lparr>st_api = ref_api, st_headers = ex_U, st_chain_cfg = ex_watch_config\<lparr>reorg_depth_threshold := 1\<rparr>,
      st_slots_cfg = ex_slots_config, st_push = truncating_push,
      st_lag = (\<lambda>n. if n \<le> 128 then None else Some (of_nat (n - 128))),
      st_finders = ex_finders, st_clients = UNIV, st_from_str = ex_from_str, st_account_list = [], st_accounts = Map.empty,
      st_format_env = ex_format_env, st_format_cfg = ex_format_config, st_slack = ex_alerter,
      st_http = plain_http, st_network = ex_network, st_uptime = None\<rparr>"

lemma ex_lag_law: "lag_law (st_lag ex_setting)"
  by (simp add: lag_law_def ex_setting_def CHANNEL_CAPACITY_def)

text \<open>
  The follower connects at block 3, sees the fork block 13 and then block 14, which retracts
  blocks 2 and 3; nothing has been read from the channel.
\<close>

lemma ex_loaded_run:
  "\<exists>fo bx. run_loop (listen_step ref_api) ex_loaded (tl ex_sub) = (fo, [bx], None) \<and>
     reorg_due (ex_watch_config\<lparr>reorg_depth_threshold := 1\<rparr>) (Recv (Inr bx)) =
       [\<lparr>co_best_block = \<lparr>hn_number = 4, hn_hash = 14\<rparr>, co_common_block = \<lparr>hn_number = 1, hn_hash = 1\<rparr>,
         co_enacted = [\<lparr>hn_number = 2, hn_hash = 12\<rparr>, \<lparr>hn_number = 3, hn_hash = 13\<rparr>],
         co_retracted = [\<lparr>hn_number = 2, hn_hash = 2\<rparr>, \<lparr>hn_number = 3, hn_hash = 3\<rparr>]\<rparr>]"
  by (simp add: ex_loaded_def ex_eval remove_header_until.simps saturating_sub_def CACHE_HEADER_DEPTH_def block_id_def
      ex_watch_config_def)

lemma ex_started: "reachable ex_setting (system_init ex_network 0)"
  by (rule reach_init) (auto simp: system_start_def ex_setting_def ref_api_ok ex_headers_ok truncating_push_ok)

lemma ex_reachable:
  "\<exists>s fo bx. reachable ex_setting s \<and> sy_follower s = Following fo \<and> sy_blocks s = [bx] \<and> sy_chain_pos s = 0 \<and>
     sy_event_pos s = 0 \<and> sy_chain s = watch_init \<and> sy_alerts s = [] \<and> sy_posted s = 0 \<and>
     run_loop (listen_step ref_api) ex_loaded (tl ex_sub) = (fo, [bx], None)"
proof -
  let ?s = "system_init ex_network 0"
  have load: "load_header_metadata_cache ref_api ex_node_a default_cache (take 1 ex_sub) = Some (Inr (ex_loaded, []))"
    by (simp add: load_header_metadata_cache_def load_range_def ex_loaded_def ex_defs is_canonical_block_def
        res_simps fetch_header_def Let_def saturating_sub_def CACHE_HEADER_DEPTH_def range_incl_def upt_rec
        canonical_header_def add_header_def rebuild_header_def)
  have items: "list_all (item_ok ref_api ex_U) (take 1 ex_sub)" "list_all (item_ok ref_api ex_U) (tl ex_sub)"
    using ex_sub_ok by (simp_all add: ex_sub_def)
  have "system_step ex_setting ?s (?s\<lparr>sy_follower := Following ex_loaded\<rparr>)"
    using load items ex_nodes_ok(1)
    by (intro system_step.connect [where c = default_cache and nd = ex_node_a and sub = "take 1 ex_sub"])
      (simp_all add: ex_setting_def system_init_def)
  from reach_step [OF ex_started this] have r1: "reachable ex_setting (?s\<lparr>sy_follower := Following ex_loaded\<rparr>)" .
  obtain fo bx where run: "run_loop (listen_step ref_api) ex_loaded (tl ex_sub) = (fo, [bx], None)"
    using ex_loaded_run by blast
  from reachable_follow [OF r1, of ex_loaded "tl ex_sub" fo "[bx]"] items run
  have "reachable ex_setting (?s\<lparr>sy_follower := Following fo, sy_blocks := [bx]\<rparr>)"
    by (simp add: ex_setting_def system_init_def)
  moreover have "sy_follower (?s\<lparr>sy_follower := Following fo, sy_blocks := [bx]\<rparr>) = Following fo"
    "sy_blocks (?s\<lparr>sy_follower := Following fo, sy_blocks := [bx]\<rparr>) = [bx]"
    "sy_chain_pos (?s\<lparr>sy_follower := Following fo, sy_blocks := [bx]\<rparr>) = 0"
    "sy_event_pos (?s\<lparr>sy_follower := Following fo, sy_blocks := [bx]\<rparr>) = 0"
    "sy_chain (?s\<lparr>sy_follower := Following fo, sy_blocks := [bx]\<rparr>) = watch_init"
    "sy_alerts (?s\<lparr>sy_follower := Following fo, sy_blocks := [bx]\<rparr>) = []"
    "sy_posted (?s\<lparr>sy_follower := Following fo, sy_blocks := [bx]\<rparr>) = 0"
    by (simp_all add: system_init_def)
  ultimately show ?thesis using run by blast
qed

text \<open>The chain monitor reads the broadcast and reports the reorg.\<close>

definition ex_chain_reorg :: chain_reorg where
  "ex_chain_reorg =
     \<lparr>co_best_block = \<lparr>hn_number = 4, hn_hash = 14\<rparr>, co_common_block = \<lparr>hn_number = 1, hn_hash = 1\<rparr>,
      co_enacted = [\<lparr>hn_number = 2, hn_hash = 12\<rparr>, \<lparr>hn_number = 3, hn_hash = 13\<rparr>],
      co_retracted = [\<lparr>hn_number = 2, hn_hash = 2\<rparr>, \<lparr>hn_number = 3, hn_hash = 3\<rparr>]\<rparr>"

lemma ex_reported: "\<exists>s. reachable ex_setting s \<and> sy_alerts s = [Reorg ex_chain_reorg] \<and> sy_posted s = 0"
proof -
  obtain s fo bx where s: "reachable ex_setting s" "sy_blocks s = [bx]" "sy_chain_pos s = 0"
    "sy_chain s = watch_init" "sy_alerts s = []" "sy_posted s = 0"
    and run: "run_loop (listen_step ref_api) ex_loaded (tl ex_sub) = (fo, [bx], None)" using ex_reachable by blast
  have recv: "chan_recv (st_lag ex_setting) (sy_blocks s) (sy_chain_pos s) = Some (Inr bx)"
    using chan_recv_within [OF ex_lag_law, of "sy_chain_pos s" "sy_blocks s"] s by (simp add: CHANNEL_CAPACITY_def)
  have "bx_blocks bx \<noteq> []"
    using some_broadcast_input [OF received_broadcast [OF sources.reach_inv [OF s(1)] recv]] by simp
  moreover have "reorg_due (st_chain_cfg ex_setting) (Recv (Inr bx)) = [ex_chain_reorg]"
    using ex_loaded_run run by (auto simp: ex_setting_def ex_chain_reorg_def simp del: reorg_due.simps)
  ultimately obtain w where "watch_step (st_chain_cfg ex_setting) (sy_chain s) (Recv (Inr bx)) = (w, [Reorg ex_chain_reorg], None)"
    by (simp add: s(4) Let_def reorg_alert_due watch_init_def recovery_alert_def del: reorg_due.simps)
  from reach_step [OF s(1) system_step.chain_receive [OF recv this]] s(5,6) show ?thesis by fastforce
qed

text \<open>The program started with the example configuration, in the example's surroundings.\<close>

lemma ex_launched:
  "\<exists>ts l env s. start_up (ex_main_env [''Autonomys Mainnet'' \<mapsto> \<lparr>nc_accounts = [], nc_bootnodes = []\<rparr>]) ex_config = (ts, Inr l) \<and>
     setting_of ex_setting ts = Some env \<and> reachable env s \<and> sy_proofs s = [] \<and> st_lag env = st_lag ex_setting"
proof -
  obtain ts l where start: "start_up (ex_main_env [''Autonomys Mainnet'' \<mapsto> \<lparr>nc_accounts = [], nc_bootnodes = []\<rparr>]) ex_config = (ts, Inr l)"
    using Main_Wiring.ex_start by blast
  then obtain subspace details networks nc nw sa where
    "load_networks_config (ex_main_env [''Autonomys Mainnet'' \<mapsto> \<lparr>nc_accounts = [], nc_bootnodes = []\<rparr>]) (network_config_path ex_config) = Inr networks"
    and "ns_networks networks (nd_name details) = Some nc"
    and ts: "ts = [RuntimeUpdater] @ spawn_tasks ex_config details nc nw sa" by (rule start_up_Inr)
  then have nc: "nc_accounts nc = []" by (auto simp: load_networks_config_def ex_main_env_def question_def split: if_splits)
  let ?env = "ex_setting\<lparr>st_chain_cfg := stall_and_reorg ex_config, st_account_list := nc_accounts nc, st_slots_cfg := slots_cfg ex_config,
       st_slack := sa, st_format_cfg := \<lparr>fc_rpc_url = rpc_url ex_config, fc_token_name = nd_token_symbol details,
         fc_token_decimals = nd_token_decimals details\<rparr>, st_network := nw,
       st_uptime := map_option (\<lambda>url. (url, uptimekuma_interval (uptimekuma ex_config))) (uptimekuma_url (uptimekuma ex_config))\<rparr>"
  have "reachable ?env (system_init nw 0)"
    by (rule reach_init) (auto simp: system_start_def ex_setting_def ref_api_ok ex_headers_ok truncating_push_ok nc)
  moreover have "setting_of ex_setting ts = Some ?env" unfolding ts by (rule setting_of_spawned)
  moreover have "sy_proofs (system_init nw 0) = []" "st_lag ?env = st_lag ex_setting" by (simp_all add: system_init_def)
  ultimately show ?thesis using start by blast
qed

section \<open>Events\<close>

lemma rounds_of: "map snd eins = map Inr bxs \<Longrightarrow> eins = map (\<lambda>(cl, bx). (cl, Inr bx)) (zip (map fst eins) bxs)"
  by (induction eins arbitrary: bxs) (auto simp: Cons_eq_map_conv)

lemma event_alerts_append [simp]: "event_alerts (xs @ ys) = event_alerts xs @ event_alerts ys"
  by (simp add: event_alerts_def)

lemma event_alerts_concat: "event_alerts (concat xss) = concat (map event_alerts xss)"
  by (induction xss) (simp_all add: event_alerts_def [of "[]"])

lemma rounds_eval:
  assumes "list_all (round_ok f m) eins" and "alerts = concat (map (round_alerts f m) eins)"
    and "eins = map (\<lambda>(cl, bx). (cl, Inr bx)) zs"
  shows "list_all (\<lambda>(cl, bx). list_all (\<lambda>b. readable (block_report f m cl b)) (bx_blocks bx)) zs"
    and "event_alerts alerts = concat (map (\<lambda>(cl, bx). concat (map (\<lambda>b. projr (block_report f m cl b)) (bx_blocks bx))) zs)"
proof -
  show "list_all (\<lambda>(cl, bx). list_all (\<lambda>b. readable (block_report f m cl b)) (bx_blocks bx)) zs"
    using assms(1,3) by (auto simp: list_all_iff)
  show "event_alerts alerts = concat (map (\<lambda>(cl, bx). concat (map (\<lambda>b. projr (block_report f m cl b)) (bx_blocks bx))) zs)"
    unfolding assms(2,3) event_alerts_concat by (induction zs) (auto simp: event_alerts_concat comp_def)
qed

lemma event_alerts_nil: "(\<And>a. a \<in> set as \<Longrightarrow> (\<forall>e. a \<noteq> Event e)) \<Longrightarrow> event_alerts as = []"
  by (induction as) (auto simp: event_alerts_def split: alert.splits)

lemma other_run_events:
  assumes "sources_ok env s" and "monitor_runs env s chain event slot"
  shows "event_alerts chain = [] \<and> event_alerts slot = []"
proof -
  obtain cins now sins where c: "run_loop (watch_step (st_chain_cfg env)) watch_init cins = (sy_chain s, chain, None)"
    and got: "received cins = take (sy_chain_pos s) (sy_blocks s)"
    and m: "run_loop (monitor_step (st_push env) (st_slots_cfg env)) (monitor_init now) sins = (sy_slots s, slot, None)"
    using assms(2) by (auto simp: monitor_runs_def timed_runs_def)
  have "list_all watch_input_ok cins" using chain_inputs_ok [OF assms(1) got] .
  then have "list_all chain_alert chain" using watch.run_out [OF _ _ c] by simp
  moreover have "monitor_ok (st_push env) (monitor_init now)"
    using assms(1) by (auto simp: sources_ok_def monitor_ok_def monitor_init_def)
  then have "list_all (slot_alert_ok (st_slots_cfg env)) slot" using slots_any.run_out [OF _ _ m] by (simp add: list_all_iff)
  ultimately show ?thesis by (auto intro!: event_alerts_nil simp: list_all_iff)
qed

lemma reachable_events:
  assumes "reachable env s"
  shows "\<exists>clients. length clients = sy_event_pos s \<and> set clients \<subseteq> st_clients env \<and>
    list_all (\<lambda>(cl, bx). list_all (\<lambda>b. readable (block_report (st_finders env) (configured (st_from_str env) (st_account_list env)) cl b)) (bx_blocks bx))
      (zip clients (take (sy_event_pos s) (sy_blocks s))) \<and>
    event_alerts (sy_alerts s) = concat (map (\<lambda>(cl, bx). concat (map
        (\<lambda>b. projr (block_report (st_finders env) (configured (st_from_str env) (st_account_list env)) cl b)) (bx_blocks bx)))
      (zip clients (take (sy_event_pos s) (sy_blocks s))))"
proof -
  note inv = runs.reach_inv [OF assms, unfolded task_runs_def]
  have acc: "configured (st_from_str env) (st_account_list env) = st_accounts env"
    using inv account_lookup [of "st_from_str env" "st_account_list env"] by (auto split: if_splits)
  obtain chain event slot where m: "monitor_runs env s chain event slot" using inv by blast
  obtain eins where run: "run_loop (events_step (st_finders env)) (st_accounts env) eins = (st_accounts env, event, None)"
    and got: "map snd eins = map Inr (take (sy_event_pos s) (sy_blocks s))" and cls: "fst ` set eins \<subseteq> st_clients env"
    using m by (auto simp: monitor_runs_def event_runs_def)
  have pos: "length (take (sy_event_pos s) (sy_blocks s)) = sy_event_pos s"
    using sources.reach_inv [OF assms] by (simp add: sources_ok_def)
  have eins: "eins = map (\<lambda>(cl, bx). (cl, Inr bx)) (zip (map fst eins) (take (sy_event_pos s) (sy_blocks s)))"
    using got by (rule rounds_of)
  have "length (map fst eins) = sy_event_pos s" using arg_cong [OF got, of length] pos by simp
  moreover have "sy_alerts s \<in> interleave3 chain event slot" using m by (simp add: monitor_runs_def)
  with other_run_events [OF sources.reach_inv [OF assms] m] have "event_alerts (sy_alerts s) = event_alerts event"
    unfolding event_alerts_def by (intro concat_map_interleave3_mid) blast+
  moreover from run have "list_all (round_ok (st_finders env) (st_accounts env)) eins"
    "event = concat (map (round_alerts (st_finders env) (st_accounts env)) eins)" by (simp_all add: run_events_ok)
  note rounds_eval [OF this eins]
  ultimately show ?thesis using cls unfolding acc by (intro exI [of _ "map fst eins"]) simp
qed

text \<open>Clients that answer with the events of the block asked for, or fail.\<close>

definition client_ok :: "(block_hash \<Rightarrow> 'evs) \<Rightarrow> 'evs client \<Rightarrow> bool" where
  "client_ok evs cl \<longleftrightarrow> (\<forall>h es. cl_events cl h = Inr es \<longrightarrow> es = evs h)"

lemma honest_report:
  "client_ok evs cl \<Longrightarrow> readable (block_report f m cl b) \<Longrightarrow>
   events_of_block f m (evs (be_hash b)) = Inr (projr (block_report f m cl b))"
  by (auto simp: client_ok_def readable_def block_report_def block_events_def question_def bind_res_eq_Inr split: sum.splits)

lemma honest_rounds:
  assumes "set clients \<subseteq> C" and "\<forall>cl\<in>C. client_ok evs cl" and "length clients = length bxs"
    and "list_all (\<lambda>(cl, bx). list_all (\<lambda>b. readable (block_report f m cl b)) (bx_blocks bx)) (zip clients bxs)"
  shows "map (\<lambda>b. events_of_block f m (evs (be_hash b))) (concat (map bx_blocks bxs)) =
    map Inr (concat (map (\<lambda>(cl, bx). map (\<lambda>b. projr (block_report f m cl b)) (bx_blocks bx)) (zip clients bxs)))"
  using assms(3,1,4)
proof (induction clients bxs rule: list_induct2)
  case (Cons cl clients bx bxs)
  then have "client_ok evs cl" using assms(2) by auto
  with Cons show ?case by (auto simp: list_all_iff honest_report)
qed simp

lemma concat_rounds: "concat (concat (map (\<lambda>(c, x). g c x) zs)) = concat (map (\<lambda>(c, x). concat (g c x)) zs)"
  by (induction zs) auto

lemma honest_events:
  assumes "reachable env s" and "\<forall>cl\<in>st_clients env. client_ok evs cl"
  shows "\<exists>reports.
    map (\<lambda>b. events_of_block (st_finders env) (configured (st_from_str env) (st_account_list env)) (evs (be_hash b)))
      (concat (map bx_blocks (take (sy_event_pos s) (sy_blocks s)))) = map Inr reports \<and>
    event_alerts (sy_alerts s) = concat reports"
proof -
  let ?rep = "block_report (st_finders env) (configured (st_from_str env) (st_account_list env))"
  obtain clients where cl: "length clients = sy_event_pos s" "set clients \<subseteq> st_clients env"
    "list_all (\<lambda>(cl, bx). list_all (\<lambda>b. readable (?rep cl b)) (bx_blocks bx)) (zip clients (take (sy_event_pos s) (sy_blocks s)))"
    and alerts: "event_alerts (sy_alerts s) = concat (map (\<lambda>(cl, bx). concat (map (\<lambda>b. projr (?rep cl b)) (bx_blocks bx)))
      (zip clients (take (sy_event_pos s) (sy_blocks s))))"
    using reachable_events [OF assms(1)] by blast
  have "length clients = length (take (sy_event_pos s) (sy_blocks s))"
    using cl(1) sources.reach_inv [OF assms(1)] by (simp add: sources_ok_def)
  from honest_rounds [OF cl(2) assms(2) this cl(3)] alerts show ?thesis
    by (intro exI [of _ "concat (map (\<lambda>(cl, bx). map (\<lambda>b. projr (?rep cl b)) (bx_blocks bx))
      (zip clients (take (sy_event_pos s) (sy_blocks s))))"] conjI)
      (simp_all add: concat_rounds)
qed

lemma same_reports: "map (\<lambda>b. Inr [x]) bs = map Inr rs \<Longrightarrow> concat rs = replicate (length bs) x"
  by (induction bs arbitrary: rs) (auto simp: Cons_eq_map_conv)

section \<open>Properties\<close>

text \<open>
  C3: From the chain to the alert: let the clients of the setting agree on the events of the
  blocks (they may fail, but when they answer they give the events \<open>evs\<close> of the block asked
  for).  Then in every state of the running program, whatever the tasks' order, the broadcasts are
  those of a follower that has not failed, all the events of the blocks in the broadcasts
  read so far could be decoded, and the event alerts sent so far are exactly these events, filtered
  by the configured accounts, block by block in the order of the broadcasts.
\<close>

theorem event_alerts_from_chain:
  assumes "reachable env s" and "\<forall>cl\<in>st_clients env. client_ok evs cl"
  shows "\<exists>ses reports. list_all (session_ok (st_api env) (st_headers env)) ses \<and>
    listen_for_all_blocks (st_api env) default_cache ses = (sy_blocks s, None) \<and>
    map (\<lambda>b. events_of_block (st_finders env) (configured (st_from_str env) (st_account_list env)) (evs (be_hash b)))
      (concat (map bx_blocks (take (sy_event_pos s) (sy_blocks s)))) = map Inr reports \<and>
    event_alerts (sy_alerts s) = concat reports"
proof -
  have "follower_runs env (sy_follower s) (sy_blocks s)"
    using runs.reach_inv [OF assms(1)] by (simp add: task_runs_def)
  with follower_runs_session honest_events [OF assms] show ?thesis by blast
qed

theorem event_alerts_from_chain_witness:
  "\<exists>s n. reachable ex_setting s \<and> n > 0 \<and>
     event_alerts (sy_alerts s) = replicate n (OperatorSlashed \<lparr>os_operator_id = 3, os_reason = InvalidBundle 4\<rparr>)"
proof -
  obtain s bx where s: "reachable ex_setting s" "sy_blocks s = [bx]" "sy_event_pos s = 0" using ex_reachable by blast
  have recv: "chan_recv (st_lag ex_setting) (sy_blocks s) (sy_event_pos s) = Some (Inr bx)"
    using chan_recv_within [OF ex_lag_law, of "sy_event_pos s" "sy_blocks s"] s by (simp add: CHANNEL_CAPACITY_def)
  have "readable (block_report (st_finders ex_setting) (st_accounts ex_setting) (ex_client\<lparr>cl_events := \<lambda>_. Inr ()\<rparr>) b)" for b
    by (simp add: readable_def block_report_def ex_setting_def ex_events_eval)
  moreover have "ex_client\<lparr>cl_events := \<lambda>_. Inr ()\<rparr> \<in> st_clients ex_setting" by (simp add: ex_setting_def)
  ultimately obtain t where t: "system_step ex_setting s t" "sy_event_pos t = 1" "sy_blocks t = [bx]"
    using event_receive_step [OF recv, of "ex_client\<lparr>cl_events := \<lambda>_. Inr ()\<rparr>"] s by (auto simp: list_all_iff)
  note r = reach_step [OF s(1) t(1)]
  have e: "events_of_block (st_finders ex_setting) (configured (st_from_str ex_setting) (st_account_list ex_setting)) () =
      Inr [OperatorSlashed \<lparr>os_operator_id = 3, os_reason = InvalidBundle 4\<rparr>]"
    by (simp add: ex_setting_def ex_events_eval configured_def)
  have "\<forall>cl\<in>st_clients ex_setting. client_ok (\<lambda>_. ()) cl" by (simp add: client_ok_def)
  with event_alerts_from_chain [OF r, of "\<lambda>_. ()"] obtain reports where
    rs: "map (\<lambda>b. events_of_block (st_finders ex_setting) (configured (st_from_str ex_setting) (st_account_list ex_setting)) ())
      (bx_blocks bx) = map Inr reports" "event_alerts (sy_alerts t) = concat reports" using t(2,3) by auto
  from rs(1) have "concat reports = replicate (length (bx_blocks bx)) (OperatorSlashed \<lparr>os_operator_id = 3, os_reason = InvalidBundle 4\<rparr>)"
    unfolding e by (rule same_reports)
  moreover have "bx_blocks bx \<noteq> []"
    using some_broadcast_input [OF received_broadcast [OF sources.reach_inv [OF s(1)] recv]] by simp
  ultimately show ?thesis using r rs(2) by (intro exI [of _ t] exI [of _ "length (bx_blocks bx)"]) simp
qed

text \<open>
  C5: In every interleaving of the tasks, the reorg alerts sent so far are exactly those that
  the broadcasts read so far call for, in the order of the chain's history, whatever the other
  monitors send in between; and what has been posted to Slack is exactly the beginning
  of the alerts sent, one post each.
\<close>

theorem alerts_delivered_in_order:
  assumes "reachable env s"
  shows "reorgs (sy_alerts s) =
      concat (map (\<lambda>bx. reorg_due (st_chain_cfg env) (Recv (Inr bx))) (take (sy_chain_pos s) (sy_blocks s))) \<and>
    sy_posts s = posts_for (st_format_env env) (st_format_cfg env) (st_slack env) (take (sy_posted s) (sy_alerts s))"
  using reachable_reorgs [OF assms] runs.reach_inv [OF assms] by (simp add: task_runs_def slack_runs_def)

theorem alerts_delivered_in_order_witness:
  "\<exists>s. reachable ex_setting s \<and> reorgs (sy_alerts s) = [ex_chain_reorg] \<and>
     [ex_chain_reorg] = concat (map (\<lambda>bx. reorg_due (st_chain_cfg ex_setting) (Recv (Inr bx))) (take (sy_chain_pos s) (sy_blocks s)))"
proof -
  obtain s where s: "reachable ex_setting s" "sy_alerts s = [Reorg ex_chain_reorg]" using ex_reported by blast
  from alerts_delivered_in_order [OF s(1)] s show ?thesis by auto
qed

text \<open>
  C23: No task is stopped by what another one sends, with the exceptions named here: in every
  reachable state, a monitor that is at most the capacity of its channel behind can take its next
  entry.  The chain monitor always can; the event monitor can if some client of the setting returns decodable
  events for the blocks of the next broadcast; the slot monitor can if the last slot it took is
  not the largest 64-bit number and the clock readings of the received proofs are below a 600th
  of the longest duration.  The Slack task can post its next alert unless it is a transfer whose
  amount cannot be printed.
\<close>

theorem monitors_never_stuck:
  assumes "reachable env s" and "lag_law (st_lag env)"
  shows "(sy_chain_pos s < length (sy_blocks s) \<and> length (sy_blocks s) - sy_chain_pos s \<le> CHANNEL_CAPACITY \<longrightarrow>
       (\<exists>t. system_step env s t \<and> sy_chain_pos t = Suc (sy_chain_pos s))) \<and>
    (sy_event_pos s < length (sy_blocks s) \<and> length (sy_blocks s) - sy_event_pos s \<le> CHANNEL_CAPACITY \<and>
       (\<exists>cl\<in>st_clients env. list_all (\<lambda>b. readable (block_report (st_finders env) (st_accounts env) cl b)) (bx_blocks (sy_blocks s ! sy_event_pos s))) \<longrightarrow>
       (\<exists>t. system_step env s t \<and> sy_event_pos t = Suc (sy_event_pos s))) \<and>
    (sy_slot_pos s < length (sy_proofs s) \<and> length (sy_proofs s) - sy_slot_pos s \<le> CHANNEL_CAPACITY \<and>
       last_slot (sy_slots s) \<noteq> Some (- 1) \<and> list_all clocked (sy_proofs s) \<longrightarrow>
       (\<exists>t. system_step env s t \<and> sy_slot_pos t = Suc (sy_slot_pos s))) \<and>
    (sy_posted s < length (sy_alerts s) \<and>
       (\<forall>x. sy_alerts s ! sy_posted s = Event (Transfer x) \<longrightarrow>
          balance_printable (st_format_env env) (st_format_cfg env) (tk_amount x)) \<longrightarrow>
       (\<exists>t. system_step env s t \<and> sy_posted t = Suc (sy_posted s)))"
proof (intro conjI impI; elim conjE)
  assume "sy_chain_pos s < length (sy_blocks s)" "length (sy_blocks s) - sy_chain_pos s \<le> CHANNEL_CAPACITY"
  from chain_receive_step [OF sources.reach_inv [OF assms(1)] chan_recv_within [OF assms(2) this]]
  show "\<exists>t. system_step env s t \<and> sy_chain_pos t = Suc (sy_chain_pos s)" by blast
next
  assume "sy_event_pos s < length (sy_blocks s)" "length (sy_blocks s) - sy_event_pos s \<le> CHANNEL_CAPACITY"
    and "\<exists>cl\<in>st_clients env. list_all (\<lambda>b. readable (block_report (st_finders env) (st_accounts env) cl b)) (bx_blocks (sy_blocks s ! sy_event_pos s))"
  with event_receive_step [OF chan_recv_within [OF assms(2)]]
  show "\<exists>t. system_step env s t \<and> sy_event_pos t = Suc (sy_event_pos s)" by blast
next
  assume "sy_slot_pos s < length (sy_proofs s)" "length (sy_proofs s) - sy_slot_pos s \<le> CHANNEL_CAPACITY"
    and "last_slot (sy_slots s) \<noteq> Some (- 1)" and "list_all clocked (sy_proofs s)"
  with slot_receive_step [OF assms(1) _ _ chan_recv_within [OF assms(2)]]
  show "\<exists>t. system_step env s t \<and> sy_slot_pos t = Suc (sy_slot_pos s)" by blast
next
  assume "sy_posted s < length (sy_alerts s)" and "\<forall>x. sy_alerts s ! sy_posted s = Event (Transfer x) \<longrightarrow>
      balance_printable (st_format_env env) (st_format_cfg env) (tk_amount x)"
  with slack_post_step [of s env] format_alert_isl [of "st_format_env env" "st_format_cfg env" "sy_alerts s ! sy_posted s"]
  show "\<exists>t. system_step env s t \<and> sy_posted t = Suc (sy_posted s)" by blast
qed

theorem monitors_never_stuck_witness:
  "\<exists>s. reachable ex_setting s \<and> sy_chain_pos s < length (sy_blocks s) \<and>
     (\<exists>t. system_step ex_setting s t \<and> sy_chain_pos t = Suc (sy_chain_pos s))"
proof -
  obtain s bx where s: "reachable ex_setting s" "sy_blocks s = [bx]" "sy_chain_pos s = 0" using ex_reachable by blast
  have "sy_chain_pos s < length (sy_blocks s)" "length (sy_blocks s) - sy_chain_pos s \<le> CHANNEL_CAPACITY"
    using s by (simp_all add: CHANNEL_CAPACITY_def)
  with monitors_never_stuck [OF s(1) ex_lag_law] s(1) show ?thesis by blast
qed

end
