(* ===== verification/System_End.thy ===== *)
theory System_End
  imports System_Runs
begin

text \<open>
  How the program ends.  \<open>system_end\<close> has one rule for every way a task can leave its loop from a
  state of the running program; the first such round ends the program, because \<open>main\<close> returns
  when the first task of the join set does (\<^verbatim>\<open>alerter/src/main.rs\<close>).  The runtime updater is
  code of the client library that may return at any time, with an error or without.
\<close>

datatype task_name = Updater | HealthPush | ChainTask | EventTask | SlotTask | SlackPoster | Follower | NetworkTask

inductive system_end :: "('dec, 'evs) setting \<Rightarrow> system \<Rightarrow> task_name \<Rightarrow> unit result \<Rightarrow> bool" for env where
  connect_end:
    "sy_follower s = Connecting c \<Longrightarrow> session_ok (st_api env) (st_headers env) se \<Longrightarrow>
     listen_session (st_api env) c se = (c', os, Some (False, f)) \<Longrightarrow> system_end env s Follower (Inl f)"
| follow_end:
    "sy_follower s = Following fo \<Longrightarrow> item_ok (st_api env) (st_headers env) item \<Longrightarrow>
     listen_step (st_api env) fo item = (fo', sent, Some f) \<Longrightarrow> \<not> reconnects (True, f) \<Longrightarrow> system_end env s Follower (Inl f)"
| chain_end:
    "chan_recv (st_lag env) (sy_blocks s) (sy_chain_pos s) = Some r \<Longrightarrow>
     watch_step (st_chain_cfg env) (sy_chain s) (Recv r) = (w, as, Some f) \<Longrightarrow> system_end env s ChainTask (Inl f)"
| event_end:
    "chan_recv (st_lag env) (sy_blocks s) (sy_event_pos s) = Some r \<Longrightarrow>
     events_step (st_finders env) (st_accounts env) (cl, r) = (m, as, Some f) \<Longrightarrow> system_end env s EventTask (Inl f)"
| slot_end:
    "chan_recv (st_lag env) (sy_proofs s) (sy_slot_pos s) = Some r' \<Longrightarrow>
     monitor_step (st_push env) (st_slots_cfg env) (sy_slots s) (Recv r') = (ms, as, Some f) \<Longrightarrow> system_end env s SlotTask (Inl f)"
| network_end:
    "net_step (sy_network s) i = (nw, acts, Some f) \<Longrightarrow> system_end env s NetworkTask (Inl f)"
| slack_end:
    "sy_posted s < length (sy_alerts s) \<Longrightarrow>
     slack_step (st_http env) (st_format_env env) (st_format_cfg env) (st_slack env)
       (Some (sy_alerts s ! sy_posted s), answers) = (sa, calls, Some f) \<Longrightarrow>
     system_end env s SlackPoster (Inl f)"
| uptime_end:
    "st_uptime env = Some (url, every) \<Longrightarrow> uptime_step url every () answer = (u, reqs, Some f) \<Longrightarrow>
     system_end env s HealthPush (Inl f)"
| updater_error:
    "system_end env s Updater (Inl (Err (error_from (ForSubxt e))))"
| updater_ok:
    "system_end env s Updater (Inr ())"

text \<open>A consumer that is further behind than the capacity of its channel.\<close>

definition lagging :: "system \<Rightarrow> bool" where
  "lagging s \<longleftrightarrow> CHANNEL_CAPACITY < length (sy_blocks s) - sy_chain_pos s \<or>
     CHANNEL_CAPACITY < length (sy_blocks s) - sy_event_pos s \<or>
     CHANNEL_CAPACITY < length (sy_proofs s) - sy_slot_pos s"

section \<open>Failures of the tasks\<close>

lemma bind_res_Inl_cases:
  "bind_res x k = Inl f \<Longrightarrow> (x = Inl f \<Longrightarrow> P) \<Longrightarrow> (\<And>a. x = Inr a \<Longrightarrow> k a = Inl f \<Longrightarrow> P) \<Longrightarrow> P"
  by (cases x) auto

lemma first_canonical_Inl: "first_canonical sub = Some (Inl f) \<Longrightarrow> node_failure f"
  by (induction sub rule: first_canonical.induct)
    (auto simp: node_failure_def split: sum.splits bool.splits dest: is_canonical_block_Inl [unfolded node_failure_def])

lemma canonical_header_Inl: "canonical_header nd n = Inl f \<Longrightarrow> node_failure f"
  by (auto simp: canonical_header_def fetch_header_def res_simps node_failure_def split: sum.splits option.splits)

lemma add_headers_total: "chain_api_ok api \<Longrightarrow> \<exists>c'. add_headers api c shs = Inr c'"
proof (induction shs arbitrary: c)
  case (Cons sh shs)
  obtain h where "rebuild_header api sh = Inr h" using rebuild_header_total [OF Cons.prems] by blast
  with Cons show ?case by (simp add: add_header_def)
qed simp

lemma load_range_Inl:
  assumes "chain_api_ok api" and "load_range api nd c latest = Inl f"
  shows "node_failure f"
  using assms(2) unfolding load_range_def Let_def
proof (elim bind_res_Inl_cases)
  fix sh
  let ?hs = "map (canonical_header nd) (range_incl (saturating_sub (sh_number sh) CACHE_HEADER_DEPTH) (sh_number sh))"
  assume "try_collect ?hs = Inl f"
  from try_collect_Inl [OF this] obtain xs ys where "?hs = map Inr xs @ Inl f # ys" by blast
  then have "Inl f \<in> set ?hs" by (simp only: set_append list.set Un_iff insert_iff simp_thms)
  then show ?thesis using canonical_header_Inl by (metis (no_types, lifting) imageE list.set_map)
qed (use fetch_header_Inl add_headers_total [OF assms(1)] in \<open>auto, metis sum.distinct(1)\<close>)

lemma session_start_failure:
  assumes "chain_api_ok api" and "listen_session api c se = (c', os, Some (False, f))"
  shows "node_failure f"
proof (cases "se_subscribe se")
  case (Inl e)
  with assms(2) show ?thesis by (auto simp: listen_session_def res_simps node_failure_def)
next
  case (Inr sub)
  with assms(2) have "load_header_metadata_cache api (se_load_node se) c sub = Some (Inl f)"
    by (auto simp: listen_session_def res_simps split: option.splits sum.splits prod.splits)
  then show ?thesis
    using first_canonical_Inl load_range_Inl [OF assms(1)]
    by (auto simp: load_header_metadata_cache_def elim!: bind_res_Inl_cases split: prod.splits)
qed

lemma format_alert_Panic:
  assumes "format_alert env cfg a = Inl f"
  shows "\<exists>msg. f = Panic msg"
proof -
  obtain t where "a = Event (Transfer t)"
    using format_alert_isl [of env cfg a] assms by (metis sum.disc(1))
  with assms have "format_transfer env cfg t = Inl f" by simp
  then show ?thesis
    by (auto simp: format_transfer_def format_balance_def expect_def elim!: bind_res_Inl_cases split: option.splits)
qed

lemma lagging_recv:
  assumes "lag_law lag" and "chan_recv lag log pos = Some (Inl e)"
  shows "\<exists>k. e = Lagged k \<and> CHANNEL_CAPACITY < length log - pos"
proof -
  obtain k where k: "e = Lagged k" "lag (length log - pos) = Some k" using chan_recv_Inl [OF assms(2)] by blast
  with assms(1) have "\<not> length log - pos \<le> CHANNEL_CAPACITY" by (auto simp: lag_law_def)
  with k show ?thesis by simp
qed

text \<open>
  Why a task has failed in a state of the program: the failures of the node, a channel read too
  slowly, a transport error of the health push, a slot that has no successor, and an amount
  that cannot be printed.
\<close>

definition end_cause :: "('dec, 'evs) setting \<Rightarrow> system \<Rightarrow> task_name \<Rightarrow> error failure \<Rightarrow> bool" where
  "end_cause env s t f \<longleftrightarrow>
     (t \<in> {Follower, EventTask, Updater} \<and> node_failure f) \<or>
     (t \<in> {ChainTask, EventTask, SlotTask} \<and> (\<exists>k. f = Err (BroadRecvErr (Lagged k))) \<and> lagging s) \<or>
     (t = HealthPush \<and> (\<exists>e. f = Err (Reqwest e)) \<and> st_uptime env \<noteq> None) \<or>
     (t = SlotTask \<and> f = Panic ''attempt to add with overflow'' \<and> last_slot (sy_slots s) = Some (- 1)) \<or>
     (t = SlackPoster \<and> (\<exists>msg x. f = Panic msg \<and> sy_alerts s ! sy_posted s = Event (Transfer x) \<and>
        \<not> balance_printable (st_format_env env) (st_format_cfg env) (tk_amount x)))"

lemma slot_end_cause:
  assumes "reachable env s" and "lag_law (st_lag env)" and "list_all clocked (sy_proofs s)"
    and recv: "chan_recv (st_lag env) (sy_proofs s) (sy_slot_pos s) = Some r"
    and step: "monitor_step (st_push env) (st_slots_cfg env) (sy_slots s) (Recv r) = (ms, as, Some f)"
  shows "end_cause env s SlotTask f"
proof (cases r)
  case (Inl e)
  with recv step lagging_recv [OF assms(2)] show ?thesis by (auto simp: end_cause_def lagging_def)
next
  case (Inr p)
  then have "clocked p" using assms(3) chan_recv_Inr [of "st_lag env" "sy_proofs s" "sy_slot_pos s" p] recv
    by (auto simp: list_all_length)
  with monitor_recv_goes_on [OF reachable_clocked [OF assms(1,3)] this, of "st_slots_cfg env"] step
  have last: "last_slot (sy_slots s) = Some (- 1)" unfolding Inr by force
  from monitor_step_overflow [OF this] step have "f = Panic ''attempt to add with overflow''" unfolding Inr by simp
  with last show ?thesis by (simp add: end_cause_def)
qed

lemma event_end_cause:
  assumes "lag_law (st_lag env)" and recv: "chan_recv (st_lag env) (sy_blocks s) (sy_event_pos s) = Some r"
    and step: "events_step (st_finders env) (st_accounts env) (cl, r) = (m, as, Some f)"
  shows "end_cause env s EventTask f"
proof (cases r)
  case (Inl e)
  with recv step lagging_recv [OF assms(1)] show ?thesis by (auto simp: end_cause_def lagging_def)
next
  case (Inr bx)
  with step obtain alerts where "watch_blocks (st_finders env) (st_accounts env) cl (bx_blocks bx) = (alerts, Some f)"
    by (auto split: prod.splits)
  from watch_blocks_fail [OF this] show ?thesis by (auto simp: end_cause_def read_failure_def node_failure_def)
qed

lemma slack_end_cause:
  assumes "slack_step http (st_format_env env) (st_format_cfg env) sa (Some (sy_alerts s ! sy_posted s), answers) = (sa', calls, Some f)"
  shows "end_cause env s SlackPoster f"
proof -
  have f: "format_alert (st_format_env env) (st_format_cfg env) (sy_alerts s ! sy_posted s) = Inl f"
    using assms by (auto split: sum.splits prod.splits)
  with format_alert_Panic obtain msg where "f = Panic msg" by blast
  moreover have "isl (format_alert (st_format_env env) (st_format_cfg env) (sy_alerts s ! sy_posted s))" using f by simp
  ultimately show ?thesis
    using format_alert_isl [of "st_format_env env" "st_format_cfg env" "sy_alerts s ! sy_posted s"]
    by (auto simp: end_cause_def)
qed

lemma system_end_cause:
  assumes "reachable env s" and "lag_law (st_lag env)" and "list_all clocked (sy_proofs s)" and "system_end env s t out"
  shows "(t = Updater \<and> out = Inr ()) \<or> (\<exists>f. out = Inl f \<and> end_cause env s t f)"
proof -
  note src = sources.reach_inv [OF assms(1)]
  have api: "follower_task_ok (st_api env) (st_headers env) (sy_follower s)" using src by (simp add: sources_ok_def)
  show ?thesis
    using assms(4)
  proof cases
    case (connect_end c se c' os f)
    then show ?thesis using session_start_failure api by (auto simp: follower_task_ok_def end_cause_def)
  next
    case (follow_end fo item fo' sent f)
    then show ?thesis using listen_step_post [of "st_api env" "st_headers env" fo item fo' sent "Some f"] api
      by (auto simp: follower_task_ok_def end_cause_def)
  next
    case (chain_end r w as f)
    then show ?thesis
      using lagging_recv [OF assms(2)] some_broadcast_input [OF received_broadcast [OF src]]
      by (cases r) (auto simp: lagging_def Let_def end_cause_def)
  next
    case (event_end r cl m as f)
    with event_end_cause [OF assms(2) event_end(3,4)] show ?thesis by blast
  next
    case (slot_end r m as f)
    with slot_end_cause [OF assms(1-3) slot_end(3,4)] show ?thesis by blast
  next
    case (network_end i nw acts f)
    then show ?thesis using net_step_shape [of "sy_network s" i] by auto
  next
    case (slack_end answers sa calls f)
    with slack_end_cause [OF slack_end(4)] show ?thesis by blast
  next
    case (uptime_end url every answer u reqs f)
    then show ?thesis by (cases answer) (auto simp: end_cause_def split: if_splits)
  next
    case (updater_error e)
    then show ?thesis by (auto simp: node_failure_def end_cause_def)
  next
    case updater_ok
    then show ?thesis by simp
  qed
qed

lemma end_cause_joined:
  assumes "start_up menv cli = (ts, Inr l)" and "end_cause env s t f"
  shows "\<exists>j e. joined_of (Inl f) = Some j \<and> main menv cli (Some j) = Inl (Err e)"
proof -
  have "f \<noteq> Diverge" using assms(2) by (auto simp: end_cause_def node_failure_def)
  then show ?thesis using main_started [OF assms(1), of "Inl f"] by (cases f) auto
qed

section \<open>Properties\<close>

text \<open>
  C6: How the started program can end, once its tasks are in their loops: if \<open>main\<close> returns an
  error, the node failed or lacks a block (the follower, the event monitor or the runtime
  updater ended), a consumer has fallen more than the channel's capacity behind, the health push
  met a transport error, the last slot taken is the largest 64-bit number, or a transfer's amount
  cannot be printed.  The only other end is that the runtime updater returns without an error:
  then \<open>main\<close> returns \<open>Ok\<close>.  Clock readings are assumed below a 600th of the longest duration.
\<close>

theorem program_end_causes:
  assumes "start_up menv cli = (ts, Inr l)" and "setting_of world ts = Some env" and "reachable env s"
    and "lag_law (st_lag env)" and "list_all clocked (sy_proofs s)" and "system_end env s t out"
  shows "(t = Updater \<and> out = Inr () \<and> joined_of out = Some (Finished (Inr ())) \<and>
      main menv cli (Some (Finished (Inr ()))) = Inr ()) \<or>
    (\<exists>f j e. out = Inl f \<and> joined_of out = Some j \<and> main menv cli (Some j) = Inl (Err e) \<and>
       ((t \<in> {Follower, EventTask, Updater} \<and> node_failure f) \<or>
        (t \<in> {ChainTask, EventTask, SlotTask} \<and> (\<exists>k. f = Err (BroadRecvErr (Lagged k))) \<and> lagging s) \<or>
        (t = HealthPush \<and> (\<exists>e. f = Err (Reqwest e)) \<and> uptimekuma_url (uptimekuma cli) \<noteq> None) \<or>
        (t = SlotTask \<and> f = Panic ''attempt to add with overflow'' \<and> last_slot (sy_slots s) = Some (- 1)) \<or>
        (t = SlackPoster \<and> (\<exists>msg x. f = Panic msg \<and> sy_alerts s ! sy_posted s = Event (Transfer x) \<and>
           \<not> balance_printable (st_format_env env) (st_format_cfg env) (tk_amount x)))))"
proof -
  obtain details nc nw sa where "ts = [RuntimeUpdater] @ spawn_tasks cli details nc nw sa"
    by (rule start_up_Inr [OF assms(1)])
  with assms(2) setting_of_spawned [of world cli details nc nw sa]
  have up: "st_uptime env \<noteq> None \<longleftrightarrow> uptimekuma_url (uptimekuma cli) \<noteq> None" by auto
  from system_end_cause [OF assms(3-6)] show ?thesis
  proof
    assume "t = Updater \<and> out = Inr ()"
    with main_started [OF assms(1), of out] show ?thesis by simp
  next
    assume "\<exists>f. out = Inl f \<and> end_cause env s t f"
    then obtain f where f: "out = Inl f" "end_cause env s t f" by blast
    with end_cause_joined [OF assms(1)] obtain j e where "joined_of out = Some j" "main menv cli (Some j) = Inl (Err e)" by blast
    with f show ?thesis unfolding end_cause_def up by blast
  qed
qed

text \<open>On an example: the runtime updater returns before anything else has happened.\<close>

theorem program_end_causes_witness:
  "\<exists>ts l env s. start_up (ex_main_env [''Autonomys Mainnet'' \<mapsto> \<lparr>nc_accounts = [], nc_bootnodes = []\<rparr>]) ex_config = (ts, Inr l) \<and>
     setting_of ex_setting ts = Some env \<and> reachable env s \<and> system_end env s Updater (Inr ()) \<and>
     main (ex_main_env [''Autonomys Mainnet'' \<mapsto> \<lparr>nc_accounts = [], nc_bootnodes = []\<rparr>]) ex_config (Some (Finished (Inr ()))) = Inr ()"
proof -
  obtain ts l env s where s: "start_up (ex_main_env [''Autonomys Mainnet'' \<mapsto> \<lparr>nc_accounts = [], nc_bootnodes = []\<rparr>]) ex_config = (ts, Inr l)"
    "setting_of ex_setting ts = Some env" "reachable env s" "sy_proofs s = []" "st_lag env = st_lag ex_setting"
    using ex_launched by blast
  have e: "system_end env s Updater (Inr ())" by (rule system_end.updater_ok)
  have "lag_law (st_lag env)" "list_all clocked (sy_proofs s)" using ex_lag_law s(4,5) by simp_all
  from program_end_causes [OF s(1-3) this e] s e show ?thesis by blast
qed

end
