(* ===== verification/Event_Find.thy ===== *)
theory Event_Find
  imports Events_Watch "HOL-Library.Multiset"
begin

text \<open>
  The event monitor against the raw events of a block (\<^verbatim>\<open>alerter/src/events.rs\<close> with the event
  names of \<^verbatim>\<open>alerter/src/event_types.rs\<close>).

  subxt keeps a block's events as a list of records that name a pallet and an event; \<open>find\<close>
  goes through that list, keeps the ones that carry the names of the wanted type and decodes
  them.  This documented behaviour is the hypothesis \<open>finders_law\<close>; the decoders stay
  parameters.  The monitor goes through the list ten times, once for each type it watches.
  The reference \<open>report_of\<close> looks at each event once.  The two agree because the ten pairs of
  names are distinct, so that no event is found twice.
\<close>

record 'f raw_event =
  re_pallet :: string
  re_variant :: string
  re_fields :: 'f

record 'f decoders =
  dec_balance_transfer :: "'f \<Rightarrow> string + balance_transfer"
  dec_balance_deposit :: "'f \<Rightarrow> string + balance_deposit"
  dec_balance_withdraw :: "'f \<Rightarrow> string + balance_withdraw"
  dec_domain_runtime_upgraded :: "'f \<Rightarrow> string + domain_runtime_upgraded"
  dec_domain_instantiated :: "'f \<Rightarrow> string + domain_instantiated"
  dec_fraud_proof_processed :: "'f \<Rightarrow> string + fraud_proof_processed"
  dec_operator_slashed :: "'f \<Rightarrow> string + operator_slashed"
  dec_operator_offline :: "'f \<Rightarrow> string + operator_offline"
  dec_sudo :: "'f \<Rightarrow> string + sudo_event"
  dec_code_updated :: "'f \<Rightarrow> string + code_updated"

definition named :: "static_event \<Rightarrow> 'f raw_event \<Rightarrow> bool" where
  "named st e \<longleftrightarrow> re_pallet e = PALLET st \<and> re_variant e = EVENT st"

definition find_static :: "static_event \<Rightarrow> ('f \<Rightarrow> string + 'e) \<Rightarrow> 'f raw_event list \<Rightarrow> (string + 'e) list" where
  "find_static st dec raws = map (\<lambda>e. dec (re_fields e)) (filter (named st) raws)"

definition finders_law :: "('evs \<Rightarrow> 'f raw_event list) \<Rightarrow> 'f decoders \<Rightarrow> 'evs finders \<Rightarrow> bool" where
  "finders_law raw dec f \<longleftrightarrow> (\<forall>evs.
     find_balance_transfer f evs = find_static static_balance_transfer (dec_balance_transfer dec) (raw evs) \<and>
     find_balance_deposit f evs = find_static static_balance_deposit (dec_balance_deposit dec) (raw evs) \<and>
     find_balance_withdraw f evs = find_static static_balance_withdraw (dec_balance_withdraw dec) (raw evs) \<and>
     find_domain_runtime_upgraded f evs =
       find_static static_domain_runtime_upgraded (dec_domain_runtime_upgraded dec) (raw evs) \<and>
     find_domain_instantiated f evs = find_static static_domain_instantiated (dec_domain_instantiated dec) (raw evs) \<and>
     find_fraud_proof_processed f evs =
       find_static static_fraud_proof_processed (dec_fraud_proof_processed dec) (raw evs) \<and>
     find_operator_slashed f evs = find_static static_operator_slashed (dec_operator_slashed dec) (raw evs) \<and>
     find_operator_offline f evs = find_static static_operator_offline (dec_operator_offline dec) (raw evs) \<and>
     find_sudo f evs = find_static static_sudo (dec_sudo dec) (raw evs) \<and>
     find_code_updated f evs = find_static static_code_updated (dec_code_updated dec) (raw evs))"

section \<open>One look at each event\<close>

text \<open>What is reported for one event of a type: \<open>Inl\<close> when it cannot be decoded, \<open>Inr None\<close> for nothing.\<close>

definition as_is :: "('e \<Rightarrow> event) \<Rightarrow> ('f \<Rightarrow> string + 'e) \<Rightarrow> 'f raw_event \<Rightarrow> string + event option" where
  "as_is into dec e = map_sum id (\<lambda>v. Some (into v)) (dec (re_fields e))"

definition if_known ::
  "'t transfer_event_ops \<Rightarrow> accounts \<Rightarrow> ('f \<Rightarrow> string + 't) \<Rightarrow> 'f raw_event \<Rightarrow> string + event option" where
  "if_known ops accounts dec e =
     map_sum id (\<lambda>v. map_option Transfer (known_transfer ops accounts v)) (dec (re_fields e))"

definition watched :: "'f decoders \<Rightarrow> accounts \<Rightarrow> (static_event \<times> ('f raw_event \<Rightarrow> string + event option)) list" where
  "watched dec accounts =
     [(static_balance_transfer, if_known balance_transfer_ops accounts (dec_balance_transfer dec)),
      (static_balance_deposit, if_known balance_deposit_ops accounts (dec_balance_deposit dec)),
      (static_balance_withdraw, if_known balance_withdraw_ops accounts (dec_balance_withdraw dec)),
      (static_domain_runtime_upgraded, as_is DomainRuntimeUpgraded (dec_domain_runtime_upgraded dec)),
      (static_domain_instantiated, as_is DomainInstantiated (dec_domain_instantiated dec)),
      (static_fraud_proof_processed, as_is FraudProofProcessed (dec_fraud_proof_processed dec)),
      (static_operator_slashed, as_is OperatorSlashed (dec_operator_slashed dec)),
      (static_operator_offline, as_is OperatorOffline (dec_operator_offline dec)),
      (static_sudo, as_is (\<lambda>_. Sudo) (dec_sudo dec)),
      (static_code_updated, as_is CodeUpdated (dec_code_updated dec))]"

fun lookup_named :: "(static_event \<times> ('f raw_event \<Rightarrow> string + event option)) list \<Rightarrow> 'f raw_event \<Rightarrow> string + event option" where
  "lookup_named [] e = Inr None"
| "lookup_named ((st, g) # ws) e = (if named st e then g e else lookup_named ws e)"

definition report_of :: "'f decoders \<Rightarrow> accounts \<Rightarrow> 'f raw_event \<Rightarrow> string + event option" where
  "report_of dec accounts = lookup_named (watched dec accounts)"

definition one_pass :: "'f decoders \<Rightarrow> accounts \<Rightarrow> 'f raw_event list \<Rightarrow> string + event list" where
  "one_pass dec accounts raws =
     map_sum id (List.map_filter id) (try_collect (map (report_of dec accounts) raws))"

section \<open>Ten passes and one pass\<close>

text \<open>The events a pass reports, and the concatenation of the passes.\<close>

definition pass :: "static_event \<Rightarrow> ('f raw_event \<Rightarrow> string + event option) \<Rightarrow> 'f raw_event list \<Rightarrow> event list" where
  "pass st g raws = List.map_filter (\<lambda>e. projr (g e)) (filter (named st) raws)"

lemma named_unique: "named st e \<Longrightarrow> named st' e \<Longrightarrow> st = st'"
  by (simp add: named_def)

lemma mset_map_filter_split:
  "mset (List.map_filter g xs) = mset (List.map_filter g (filter P xs)) + mset (List.map_filter g (filter (\<lambda>x. \<not> P x) xs))"
  by (induction xs) (auto simp: List.map_filter_simps split: option.splits)

lemma map_filter_cong: "(\<And>x. x \<in> set xs \<Longrightarrow> f x = g x) \<Longrightarrow> List.map_filter f xs = List.map_filter g xs"
  by (induction xs) (auto simp: List.map_filter_simps split: option.splits)

lemma pass_other:
  "st \<notin> fst ` set ws \<Longrightarrow> (st', g) \<in> set ws \<Longrightarrow> pass st' g (filter (\<lambda>e. \<not> named st e) raws) = pass st' g raws"
  unfolding pass_def filter_filter
  by (intro arg_cong [of _ _ "List.map_filter _"] filter_cong) (force dest: named_unique)+

lemma mset_passes:
  "distinct (map fst ws) \<Longrightarrow>
   mset (concat (map (\<lambda>(st, g). pass st g raws) ws)) = mset (List.map_filter (\<lambda>e. projr (lookup_named ws e)) raws)"
proof (induction ws arbitrary: raws)
  case Nil
  then show ?case by (induction raws) (auto simp: List.map_filter_simps)
next
  case (Cons w ws)
  obtain st g where w: "w = (st, g)" by fastforce
  let ?rest = "filter (\<lambda>e. \<not> named st e) raws"
  have "concat (map (\<lambda>(st, g). pass st g raws) ws) = concat (map (\<lambda>(st, g). pass st g ?rest) ws)"
    using Cons.prems w by (intro arg_cong [of _ _ concat] map_cong) (auto simp: pass_other)
  moreover have "List.map_filter (\<lambda>e. projr (lookup_named ws e)) ?rest = List.map_filter (\<lambda>e. projr (lookup_named (w # ws) e)) ?rest"
    by (rule map_filter_cong) (simp add: w)
  moreover have "pass st g raws = List.map_filter (\<lambda>e. projr (lookup_named (w # ws) e)) (filter (named st) raws)"
    unfolding pass_def by (rule map_filter_cong) (simp add: w)
  ultimately show ?case
    using Cons.IH [of ?rest] Cons.prems w
      mset_map_filter_split [of "\<lambda>e. projr (lookup_named (w # ws) e)" raws "named st"] by simp
qed

lemma static_names_distinct: "distinct (map fst (watched dec accounts))"
  by (simp add: watched_def static_event_defs)

section \<open>The passes of the program\<close>

lemma find_static_ok:
  "(\<exists>xs. find_static st d raws = map Inr xs) \<longleftrightarrow> (\<forall>e\<in>set raws. named st e \<longrightarrow> \<not> isl (d (re_fields e)))"
proof
  assume "\<forall>e\<in>set raws. named st e \<longrightarrow> \<not> isl (d (re_fields e))"
  then have "find_static st d raws = map Inr (map (\<lambda>e. projr (d (re_fields e))) (filter (named st) raws))"
    by (auto simp: find_static_def)
  then show "\<exists>xs. find_static st d raws = map Inr xs" by blast
next
  assume "\<exists>xs. find_static st d raws = map Inr xs"
  then have "\<forall>x\<in>set (find_static st d raws). \<not> isl x" by auto
  then show "\<forall>e\<in>set raws. named st e \<longrightarrow> \<not> isl (d (re_fields e))" by (simp add: find_static_def)
qed

lemma map_filter_map: "List.map_filter f (map g xs) = List.map_filter (\<lambda>x. f (g x)) xs"
  by (induction xs) (auto simp: List.map_filter_simps split: option.splits)

lemma pass_found:
  assumes "find_static st d raws = map Inr xs"
  shows "pass st (\<lambda>e. map_sum id h (d (re_fields e))) raws = List.map_filter h xs"
proof -
  have "pass st (\<lambda>e. map_sum id h (d (re_fields e))) raws =
      List.map_filter (\<lambda>x. projr (map_sum id h x)) (find_static st d raws)"
    by (simp add: pass_def find_static_def map_filter_map)
  with assms show ?thesis by (simp add: map_filter_map)
qed

lemma pass_as_is: "find_static st d raws = map Inr xs \<Longrightarrow> pass st (as_is into d) raws = map into xs"
  using pass_found [of st d raws xs "\<lambda>v. Some (into v)"]
  by (simp add: as_is_def [abs_def] List.map_filter_def)

lemma pass_if_known:
  "find_static st d raws = map Inr xs \<Longrightarrow>
   pass st (if_known ops accounts d) raws = map Transfer (filter_known_account_transfers ops accounts xs)"
proof -
  have "List.map_filter (\<lambda>v. map_option Transfer (k v)) xs = map Transfer (List.map_filter k xs)"
    for k :: "'a \<Rightarrow> transfer_known_account_event option" and xs
    by (induction xs) (auto simp: List.map_filter_simps split: option.splits)
  then show "find_static st d raws = map Inr xs \<Longrightarrow> ?thesis"
    by (simp add: if_known_def [abs_def] filter_known_account_transfers_def pass_found)
qed

lemma isl_cases [simp]: "isl (as_is into d e) = isl (d (re_fields e))" "isl (if_known ops accounts d e) = isl (d (re_fields e))"
  by (simp_all add: as_is_def if_known_def isl_map_sum)

text \<open>Every watched event of the list decodes.\<close>

definition all_decode :: "(static_event \<times> ('f raw_event \<Rightarrow> string + event option)) list \<Rightarrow> 'f raw_event list \<Rightarrow> bool" where
  "all_decode ws raws \<longleftrightarrow> list_all (\<lambda>(st, g). list_all (\<lambda>e. named st e \<longrightarrow> \<not> isl (g e)) raws) ws"

lemma all_decode_lookup:
  "distinct (map fst ws) \<Longrightarrow> all_decode ws raws \<longleftrightarrow> list_all (\<lambda>e. \<not> isl (lookup_named ws e)) raws"
proof (induction ws)
  case (Cons w ws)
  obtain st g where w: "w = (st, g)" by fastforce
  have "lookup_named ws e = Inr None" if "named st e" for e
    using Cons.prems w that by (induction ws) (auto dest: named_unique)
  with Cons w show ?case by (auto simp: all_decode_def list_all_iff)
qed (simp add: all_decode_def list_all_iff)

lemma finders_lawD:
  assumes "finders_law raw dec f"
  shows "find_balance_transfer f evs = find_static static_balance_transfer (dec_balance_transfer dec) (raw evs)"
    "find_balance_deposit f evs = find_static static_balance_deposit (dec_balance_deposit dec) (raw evs)"
    "find_balance_withdraw f evs = find_static static_balance_withdraw (dec_balance_withdraw dec) (raw evs)"
    "find_domain_runtime_upgraded f evs = find_static static_domain_runtime_upgraded (dec_domain_runtime_upgraded dec) (raw evs)"
    "find_domain_instantiated f evs = find_static static_domain_instantiated (dec_domain_instantiated dec) (raw evs)"
    "find_fraud_proof_processed f evs = find_static static_fraud_proof_processed (dec_fraud_proof_processed dec) (raw evs)"
    "find_operator_slashed f evs = find_static static_operator_slashed (dec_operator_slashed dec) (raw evs)"
    "find_operator_offline f evs = find_static static_operator_offline (dec_operator_offline dec) (raw evs)"
    "find_sudo f evs = find_static static_sudo (dec_sudo dec) (raw evs)"
    "find_code_updated f evs = find_static static_code_updated (dec_code_updated dec) (raw evs)"
  using assms by (simp_all add: finders_law_def)

text \<open>The program's result, written with the passes.\<close>

lemma events_of_block_Inr:
  assumes law: "finders_law raw dec f"
  shows "events_of_block f accounts evs = Inr es \<longleftrightarrow> all_decode (watched dec accounts) (raw evs) \<and>
    es = concat (map (\<lambda>(st, g). pass st g (raw evs)) (watched dec accounts))" (is "?run \<longleftrightarrow> ?dec \<and> ?es")
proof -
  let ?found = "\<lambda>ts ds ws us ins ps ss os sd cs. find_static static_balance_transfer (dec_balance_transfer dec) (raw evs) = map Inr ts \<and>
      find_static static_balance_deposit (dec_balance_deposit dec) (raw evs) = map Inr ds \<and>
      find_static static_balance_withdraw (dec_balance_withdraw dec) (raw evs) = map Inr ws \<and>
      find_static static_domain_runtime_upgraded (dec_domain_runtime_upgraded dec) (raw evs) = map Inr us \<and>
      find_static static_domain_instantiated (dec_domain_instantiated dec) (raw evs) = map Inr ins \<and>
      find_static static_fraud_proof_processed (dec_fraud_proof_processed dec) (raw evs) = map Inr ps \<and>
      find_static static_operator_slashed (dec_operator_slashed dec) (raw evs) = map Inr ss \<and>
      find_static static_operator_offline (dec_operator_offline dec) (raw evs) = map Inr os \<and>
      find_static static_sudo (dec_sudo dec) (raw evs) = map Inr sd \<and>
      find_static static_code_updated (dec_code_updated dec) (raw evs) = map Inr cs"
  have "?run \<longleftrightarrow> (\<exists>ts ds ws us ins ps ss os sd cs. ?found ts ds ws us ins ps ss os sd cs \<and>
      es = map Transfer (filter_known_account_transfers balance_transfer_ops accounts ts @
        filter_known_account_transfers balance_deposit_ops accounts ds @
        filter_known_account_transfers balance_withdraw_ops accounts ws) @
      map DomainRuntimeUpgraded us @ map DomainInstantiated ins @ map FraudProofProcessed ps @
      map OperatorSlashed ss @ map OperatorOffline os @ map (\<lambda>_. Sudo) sd @ map CodeUpdated cs)"
    unfolding events_of_block_def known_transfers_def bind_res_eq_Inr as_events_Inr event_from_defs
      res_Inr try_collect_Inr_iff finders_lawD [OF law] by auto
  also have "\<dots> \<longleftrightarrow> (\<exists>ts ds ws us ins ps ss os sd cs. ?found ts ds ws us ins ps ss os sd cs) \<and> ?es"
    by (auto simp: watched_def pass_as_is pass_if_known)
  also have "(\<exists>ts ds ws us ins ps ss os sd cs. ?found ts ds ws us ins ps ss os sd cs) \<longleftrightarrow> ?dec"
    by (simp add: all_decode_def watched_def find_static_ok [symmetric] list_all_iff)
  finally show ?thesis .
qed

section \<open>An instance\<close>

text \<open>Finders that do what is documented, and decoders on events whose fields are a number.\<close>

definition static_finders :: "'f decoders \<Rightarrow> 'f raw_event list finders" where
  "static_finders dec =
     \<lparr>find_balance_transfer = find_static static_balance_transfer (dec_balance_transfer dec),
      find_balance_deposit = find_static static_balance_deposit (dec_balance_deposit dec),
      find_balance_withdraw = find_static static_balance_withdraw (dec_balance_withdraw dec),
      find_domain_runtime_upgraded = find_static static_domain_runtime_upgraded (dec_domain_runtime_upgraded dec),
      find_domain_instantiated = find_static static_domain_instantiated (dec_domain_instantiated dec),
      find_fraud_proof_processed = find_static static_fraud_proof_processed (dec_fraud_proof_processed dec),
      find_operator_slashed = find_static static_operator_slashed (dec_operator_slashed dec),
      find_operator_offline = find_static static_operator_offline (dec_operator_offline dec),
      find_sudo = find_static static_sudo (dec_sudo dec),
      find_code_updated = find_static static_code_updated (dec_code_updated dec)\<rparr>"

lemma static_finders_law: "finders_law id dec (static_finders dec)"
  by (simp add: finders_law_def static_finders_def)

definition ex_decoders :: "nat decoders" where
  "ex_decoders =
     \<lparr>dec_balance_transfer = (\<lambda>n. Inr \<lparr>bt_from = 1, bt_to = 2, bt_amount = of_nat n\<rparr>),
      dec_balance_deposit = (\<lambda>n. Inr \<lparr>bd_who = 9, bd_amount = of_nat n\<rparr>),
      dec_balance_withdraw = (\<lambda>n. Inr \<lparr>bw_who = 2, bw_amount = of_nat n\<rparr>),
      dec_domain_runtime_upgraded = (\<lambda>n. Inr \<lparr>dru_runtime_id = of_nat n\<rparr>),
      dec_domain_instantiated = (\<lambda>n. Inr \<lparr>di_domain_id = DomainId (of_nat n)\<rparr>),
      dec_fraud_proof_processed = (\<lambda>n. Inr \<lparr>fp_domain_id = DomainId (of_nat n), fp_new_head_receipt_number = None\<rparr>),
      dec_operator_slashed = (\<lambda>n. Inr \<lparr>os_operator_id = of_nat n, os_reason = InvalidBundle 4\<rparr>),
      dec_operator_offline = (\<lambda>n. Inl ''not decodable''),
      dec_sudo = (\<lambda>n. Inr \<lparr>sudo_result = Inr ()\<rparr>),
      dec_code_updated = (\<lambda>n. Inr CodeUpdatedUnit)\<rparr>"

definition ex_raws :: "nat raw_event list" where
  "ex_raws =
     [\<lparr>re_pallet = ''Sudo'', re_variant = ''Sudid'', re_fields = 0\<rparr>,
      \<lparr>re_pallet = ''Balances'', re_variant = ''Deposit'', re_fields = 5\<rparr>,
      \<lparr>re_pallet = ''Balances'', re_variant = ''Transfer'', re_fields = 50\<rparr>,
      \<lparr>re_pallet = ''Rewards'', re_variant = ''Transfer'', re_fields = 1\<rparr>,
      \<lparr>re_pallet = ''Balances'', re_variant = ''Withdraw'', re_fields = 7\<rparr>]"

section \<open>Properties\<close>

text \<open>
  C10: Reading a block's events equals one look at each of them.  When every watched event can be
  decoded, the reported events are, up to their order, what each event of the block gives on
  its own: a watched one that is not a balance movement gives one report, a balance movement
  gives one when it has a known party, and any other event gives none, so no event of the block
  is reported twice or missed.  When a watched event cannot be decoded, reading fails with the
  node client's error.
\<close>

theorem one_report_per_event:
  assumes law: "finders_law raw dec f"
  shows "case one_pass dec accounts (raw evs) of
      Inr es' \<Rightarrow> \<exists>es. events_of_block f accounts evs = Inr es \<and> mset es = mset es'
    | Inl _ \<Rightarrow> \<exists>e. events_of_block f accounts evs = Inl (Err (Subxt e))"
proof (cases "try_collect (map (report_of dec accounts) (raw evs))")
  case (Inr rs)
  then have rs: "map (report_of dec accounts) (raw evs) = map Inr rs" by (rule try_collect_Inr)
  let ?ws = "watched dec accounts"
  have "list_all (\<lambda>r. \<not> isl r) (map (report_of dec accounts) (raw evs))"
    unfolding rs by (simp add: list_all_iff)
  then have "list_all (\<lambda>e. \<not> isl (lookup_named ?ws e)) (raw evs)" by (simp add: list_all_iff report_of_def)
  then have dec: "all_decode ?ws (raw evs)" using all_decode_lookup [OF static_names_distinct] by blast
  have "List.map_filter id rs = List.map_filter (\<lambda>e. projr (lookup_named ?ws e)) (raw evs)"
    using arg_cong [OF rs, of "List.map_filter projr"] by (simp add: map_filter_map report_of_def id_def)
  with mset_passes [OF static_names_distinct, where raws = "raw evs"] events_of_block_Inr [OF law] dec Inr
  show ?thesis by (simp add: one_pass_def)
next
  case (Inl x)
  have "\<not> list_all (\<lambda>e. \<not> isl (report_of dec accounts e)) (raw evs)"
    using try_collect_Inl [OF Inl] by (metis (no_types, lifting) in_set_conv_decomp list_all_iff list.set_map
      imageE sum.disc(1))
  then have "\<not> all_decode (watched dec accounts) (raw evs)"
    using all_decode_lookup [OF static_names_distinct] by (auto simp: report_of_def)
  then obtain e where "events_of_block f accounts evs = Inl e"
    using events_of_block_Inr [OF law] by (metis sum.exhaust)
  with events_of_block_fail [OF this] Inl show ?thesis by (auto simp: one_pass_def read_failure_def)
qed

theorem one_report_per_event_witness:
  "\<exists>es. events_of_block (static_finders ex_decoders) ex_accounts ex_raws = Inr es \<and>
     mset es = mset [Sudo,
       Transfer \<lparr>tk_direction = Sender, tk_transfer_type = TransferTransfer, tk_name = ''alice'', tk_address = ''A'', tk_amount = 50\<rparr>,
       Transfer \<lparr>tk_direction = Sender, tk_transfer_type = TransferWithdraw, tk_name = ''bob'', tk_address = ''B'', tk_amount = 7\<rparr>]"
proof -
  have "one_pass ex_decoders ex_accounts ex_raws = Inr [Sudo,
       Transfer \<lparr>tk_direction = Sender, tk_transfer_type = TransferTransfer, tk_name = ''alice'', tk_address = ''A'', tk_amount = 50\<rparr>,
       Transfer \<lparr>tk_direction = Sender, tk_transfer_type = TransferWithdraw, tk_name = ''bob'', tk_address = ''B'', tk_amount = 7\<rparr>]"
    by (simp add: one_pass_def report_of_def watched_def ex_raws_def ex_decoders_def named_def static_event_defs
        as_is_def if_known_def known_transfer_def transfer_ops_defs ex_accounts_def List.map_filter_simps)
  with one_report_per_event [OF static_finders_law, of ex_decoders ex_accounts ex_raws] show ?thesis by simp
qed

end
