(* ===== verification/Md_Read.thy ===== *)
theory Md_Read
  imports Md_Format
begin

text \<open>
  Reading messages back (\<^verbatim>\<open>alerter/src/md_format.rs\<close>).

  A reader that knows only the layout of the texts recovers a reorg alert from its message:
  the lines, in each line of a block the number in the last parentheses and the hash at the
  end of the link.  The hash is read with \<open>unhex\<close>, the inverse of the hexadecimal encoding,
  which like the encoding is a parameter.
\<close>

text \<open>
  \<open>[hash](..0xhex) (number)\<close>, read from the end: the digits up to the opening parenthesis,
  then the hexadecimal digits up to the \<open>x\<close>.
\<close>

definition read_block :: "(string \<Rightarrow> h256 option) \<Rightarrow> string \<Rightarrow> hash_and_number option" where
  "read_block unhex s =
     (let rest = drop 1 (rev s);
          digits = takeWhile (\<lambda>c. c \<noteq> CHR ''('') rest;
          link = drop 3 (dropWhile (\<lambda>c. c \<noteq> CHR ''('') rest);
          hex = takeWhile (\<lambda>c. c \<noteq> CHR ''x'') link
      in map_option (\<lambda>h. \<lparr>hn_number = of_nat (read_nat 0 (rev digits)), hn_hash = h\<rparr>) (unhex (rev hex)))"

fun all_some :: "'a option list \<Rightarrow> 'a list option" where
  "all_some [] = Some []"
| "all_some (x # xs) =
     (case x of None \<Rightarrow> None | Some a \<Rightarrow> map_option (Cons a) (all_some xs))"

definition read_blocks :: "(string \<Rightarrow> h256 option) \<Rightarrow> string list \<Rightarrow> hash_and_number list option" where
  "read_blocks unhex ls = all_some (map (\<lambda>l. read_block unhex (drop 2 l)) (filter (\<lambda>l. l \<noteq> []) ls))"

definition read_reorg :: "(string \<Rightarrow> h256 option) \<Rightarrow> string \<Rightarrow> chain_reorg option" where
  "read_reorg unhex msg =
     (let ls = split_nl msg;
          lists = butlast (drop 4 ls);
          retracted = takeWhile (\<lambda>l. l \<noteq> ''Enacted blocks:'') lists;
          enacted = drop 1 (dropWhile (\<lambda>l. l \<noteq> ''Enacted blocks:'') lists)
      in (case (read_block unhex (drop 12 (ls ! 1)), read_block unhex (drop 14 (ls ! 2)),
                read_blocks unhex enacted, read_blocks unhex retracted) of
            (Some best, Some common, Some en, Some re) \<Rightarrow>
              Some \<lparr>co_best_block = best, co_common_block = common, co_enacted = en, co_retracted = re\<rparr>
          | _ \<Rightarrow> None))"

text \<open>Hexadecimal digits, which do not include the letter x, with their inverse.\<close>

definition hex_ok :: "'dec format_env \<Rightarrow> (string \<Rightarrow> h256 option) \<Rightarrow> bool" where
  "hex_ok env unhex \<longleftrightarrow> (\<forall>h. CHR ''x'' \<notin> set (hex_encode env h) \<and> unhex (hex_encode env h) = Some h)"

section \<open>Numbers\<close>

lemma digit_char_not_paren: "d < 10 \<Longrightarrow> digit_char d \<noteq> CHR ''(''"
  by (auto dest: arg_cong [of _ _ "of_char :: char \<Rightarrow> nat"])

lemma show_nat_no_paren: "CHR ''('' \<notin> set (show_nat n)"
  by (induction n rule: show_nat.induct) (subst show_nat.simps, auto simp: digit_char_not_paren [THEN not_sym])

lemma read_show_word: "of_nat (read_nat 0 (show_word w)) = w"
  by (simp add: show_word_def)

section \<open>Blocks\<close>

lemma takeWhile_stop: "x \<notin> set xs \<Longrightarrow> takeWhile (\<lambda>c. c \<noteq> x) (xs @ x # ys) = xs"
  by (induction xs) auto

lemma dropWhile_stop: "x \<notin> set xs \<Longrightarrow> dropWhile (\<lambda>c. c \<noteq> x) (xs @ x # ys) = x # ys"
  by (induction xs) auto

lemma read_format_block:
  assumes "hex_ok env unhex"
  shows "read_block unhex (format_hash_and_number env cfg hn) = Some hn"
proof -
  let ?num = "show_word (hn_number hn)" and ?hex = "hex_encode env (hn_hash hn)"
  define head where "head = ''['' @ display_hash env (hn_hash hn) @ '']('' @
    ''https://polkadot.js.org/apps/?rpc='' @ urlencode env (fc_rpc_url cfg) @ ''#/explorer/query/0''"
  have "format_hash_and_number env cfg hn = head @ ''x'' @ ?hex @ '') ('' @ ?num @ '')''"
    by (simp add: format_hash_and_number_def head_def Let_def)
  then have rest: "drop 1 (rev (format_hash_and_number env cfg hn)) =
      rev ?num @ CHR ''('' # CHR '' '' # CHR '')'' # rev ?hex @ CHR ''x'' # rev head"
    by simp
  have "CHR ''('' \<notin> set (rev ?num)" "CHR ''x'' \<notin> set (rev ?hex)"
    using assms show_nat_no_paren by (auto simp: hex_ok_def show_word_def)
  with assms show ?thesis
    unfolding read_block_def rest Let_def
    by (simp add: takeWhile_stop dropWhile_stop read_show_word hex_ok_def)
qed

lemma all_some_map_Some [simp]: "all_some (map Some xs) = Some xs"
  by (induction xs) auto

lemma read_block_lines:
  assumes "hex_ok env unhex"
  shows "read_blocks unhex (block_lines env cfg hns) = Some hns"
proof (cases "hns = []")
  case True
  then show ?thesis by (simp add: read_blocks_def block_lines_def)
next
  case False
  with read_format_block [OF assms] show ?thesis
    by (simp add: read_blocks_def block_lines_def filter_map comp_def)
qed

text \<open>The whole message.\<close>

lemma read_format_reorg:
  assumes one: "prints_one_line env" and hex: "hex_ok env unhex"
  shows "read_reorg unhex (format_reorg env cfg r) = Some r"
proof -
  let ?re = "block_lines env cfg (co_retracted r)" and ?en = "block_lines env cfg (co_enacted r)"
  have ls: "split_nl (format_reorg env cfg r) =
    [''**Chain reorg**'', ''Best block: '' @ format_hash_and_number env cfg (co_best_block r),
     ''Common block: '' @ format_hash_and_number env cfg (co_common_block r), ''Retracted blocks:''] @
    ?re @ ''Enacted blocks:'' # ?en @ [''Reorg Depth: '' @ show_nat (length (co_retracted r))]"
    using split_nl_reorg [OF one, of cfg r] by simp
  have "''Enacted blocks:'' \<notin> set ?re" by (auto simp: block_lines_def split: if_splits)
  then show ?thesis
    unfolding read_reorg_def ls Let_def
    by (simp add: butlast_append takeWhile_stop dropWhile_stop read_format_block [OF hex] read_block_lines [OF hex])
qed

section \<open>Properties\<close>

text \<open>
  C20: A reorg message loses nothing: from its text alone, the best block, the common block and
  the retracted and the enacted blocks in their order can be read back, with their hashes and
  their numbers.
\<close>

theorem reorg_message_roundtrip:
  assumes "prints_one_line env" and "hex_ok env unhex"
  shows "read_reorg unhex (format_reorg env cfg r) = Some r"
  using assms by (rule read_format_reorg)

text \<open>An environment that prints a hash in decimal digits, and its inverse.\<close>

definition ex_unhex :: "string \<Rightarrow> h256 option" where
  "ex_unhex s = Some (of_nat (read_nat 0 s))"

lemma digit_char_not_x: "d < 10 \<Longrightarrow> digit_char d \<noteq> CHR ''x''"
  by (auto dest: arg_cong [of _ _ "of_char :: char \<Rightarrow> nat"])

lemma show_nat_no_x: "CHR ''x'' \<notin> set (show_nat n)"
  by (induction n rule: show_nat.induct) (subst show_nat.simps, auto simp: digit_char_not_x [THEN not_sym])

lemma ex_hex_ok: "hex_ok ex_format_env ex_unhex"
  by (simp add: hex_ok_def ex_format_env_def ex_unhex_def read_show_word) (simp add: show_word_def show_nat_no_x)

theorem reorg_message_roundtrip_witness:
  "read_reorg ex_unhex (format_reorg ex_format_env ex_format_config
     \<lparr>co_best_block = \<lparr>hn_number = 9, hn_hash = 90\<rparr>, co_common_block = \<lparr>hn_number = 7, hn_hash = 70\<rparr>,
      co_enacted = [\<lparr>hn_number = 8, hn_hash = 80\<rparr>],
      co_retracted = [\<lparr>hn_number = 8, hn_hash = 81\<rparr>, \<lparr>hn_number = 9, hn_hash = 91\<rparr>]\<rparr>) =
   Some \<lparr>co_best_block = \<lparr>hn_number = 9, hn_hash = 90\<rparr>, co_common_block = \<lparr>hn_number = 7, hn_hash = 70\<rparr>,
      co_enacted = [\<lparr>hn_number = 8, hn_hash = 80\<rparr>],
      co_retracted = [\<lparr>hn_number = 8, hn_hash = 81\<rparr>, \<lparr>hn_number = 9, hn_hash = 91\<rparr>]\<rparr>"
  by (rule reorg_message_roundtrip [OF ex_prints_one_line ex_hex_ok])

end
