(* ===== verification/Spec2Isabelle.thy ===== *)
theory Spec2Isabelle
  imports System_End Event_Find Md_Read
begin

text \<open>
  A model of the Subspace chain alerter (the Rust crate under \<^verbatim>\<open>src/alerter\<close>) and the
  theorems about it.

  \<^bold>\<open>The program.\<close>  \<open>main\<close> connects to a node, detects its network, loads the configuration of that
  network and spawns tasks that run forever.  The block follower subscribes to all imported
  blocks, keeps a cache of headers, finds the route from the previous best block to the new one
  and broadcasts the enacted blocks with the data of a reorg.  The chain monitor and the event
  monitor consume these broadcasts; the network task receives proof-of-time notifications from
  peers and broadcasts them to the slot monitor.  The three monitors send alerts into one
  unbounded channel, and the Slack task formats and posts them.  A last task pushes a
  heartbeat.  The program ends when the first task ends.

  \<^bold>\<open>How it is modelled.\<close>  A task is its loop body, a function from local state and one input to new
  state, outputs and possibly a failure; \<open>run_loop\<close> feeds it a finite sequence of inputs, so a
  theorem about all sequences is a theorem about all moments of the task's life.  Channels are
  the outputs and inputs of these loops.  Errors, panics and non-termination are values of
  \<open>failure\<close>.  Integers keep their width, and arithmetic that can overflow panics as the release
  profile demands.  Code of other crates (the node, the swarm, decoders, hash functions, the tree
  route, \<open>BoundedVec\<close>, printing of durations and decimals, the Slack API, files) is a parameter;
  what is relied on is a named hypothesis, and every such theorem has a witness with a concrete
  instance.

  \<^bold>\<open>The theories.\<close>

  \<^item> \<open>Prelude\<close>: integers, results, durations, decimal display (Rust's core library), and the
    collections \<open>res_simps\<close> and \<open>word_arith\<close>.
  \<^item> \<open>Task_Loop\<close>: \<open>run_loop\<close> and two interfaces, the locales \<open>loop_contract\<close> (an invariant, good
    outputs and expected failures under good inputs) and \<open>loop_refinement\<close>.
  \<^item> \<open>Errors\<close> (\<^verbatim>\<open>error.rs\<close>): the error enum, conversions and messages; the stall clock the two
    monitors share, with the locale \<open>stalling_task\<close>.
  \<^item> \<open>Event_Types\<close> (\<^verbatim>\<open>event_types.rs\<close>): events, names and conversions; the trait
    \<open>TransferEvent\<close> as a record of operations with the locale \<open>transfer_event\<close>.
  \<^item> \<open>Header_Cache\<close> (\<open>HeadersMetadataCache\<close> of \<^verbatim>\<open>subspace.rs\<close>): the cache operations; the
    locale \<open>header_store\<close>.  The lemmas show that both maps agree after every operation and
    exactly what is added and removed.
  \<^item> \<open>Tree_Route\<close>: the documented behaviour of \<open>sp_blockchain::tree_route\<close> as a law, and a
    reference implementation that satisfies it.
  \<^item> \<open>Block_Listener\<close> (\<open>listen_for_all_blocks\<close>, \<open>listen_for_blocks\<close>, \<open>load_header_metadata_cache\<close>,
    \<open>recursive_tree_route\<close>, \<open>is_canonical_block\<close>, \<open>get_block_ext\<close>): the follower.  The theorems show
    that consumers can replay the best chain from the broadcasts, that it ends only with
    failures of the node, and that the route retry returns.
  \<^item> \<open>Cache_Window\<close>: the cached block numbers have no gap while blocks arrive next to them, so that
    pruning bounds the cache.  \<open>Reconnect\<close>: which heights each session of the follower broadcasts.
  \<^item> \<open>Chain_Client\<close> (the accessors of \<open>BlockExt\<close>, \<open>new_from_url\<close>, \<open>network_details\<close>).
  \<^item> \<open>P2p_Network\<close> (\<^verbatim>\<open>p2p_network.rs\<close>): peer roles, the swarm's settings and the run loop.
  \<^item> \<open>Alerts\<close>: the alert structs and the enum \<open>Alert\<close>.  \<open>Cli\<close> (\<^verbatim>\<open>cli.rs\<close>): the configuration.
  \<^item> \<open>Stall_Reorg\<close> (\<^verbatim>\<open>stall_and_reorg.rs\<close>): the chain monitor; it is shown to implement a monitor
    that counts missed waits, and its stall, recovery and reorg alerts are determined exactly.
  \<^item> \<open>Slots\<close> (\<^verbatim>\<open>slots.rs\<close>): the slot monitor; the chain of slots it takes, its slow-slot, stall
    and average alerts, the ways it ends, and the two notifications with which a peer makes its
    arithmetic overflow.
  \<^item> \<open>Events_Watch\<close> (\<^verbatim>\<open>events.rs\<close>): the event monitor; the reports due for the movements of
    configured accounts, and that no event is lost.  \<open>Event_Find\<close>: its passes over a block's events equal one look at each event.
  \<^item> \<open>Md_Format\<close> (\<^verbatim>\<open>md_format.rs\<close>): the messages and when they can be printed.  \<open>Md_Read\<close>: a reader
    that recovers a reorg from its message.
  \<^item> \<open>Slack_Alerter\<close> (\<^verbatim>\<open>slack.rs\<close>): the secret, the posts with the retries of the Slack client
    (\<open>retry_law\<close>), when Slack accepts a message, and the ways the task ends.
  \<^item> \<open>Uptime\<close> (\<^verbatim>\<open>uptime.rs\<close>) and \<open>Main_Wiring\<close> (\<^verbatim>\<open>main.rs\<close>): the heartbeat, the logger, the
    start-up sequence and the result of the program.
  \<^item> \<open>Concurrency\<close>: reachable states with the locale \<open>step_invariant\<close>, the broadcast channels
    (\<open>channel(100)\<close>) and interleavings.
  \<^item> \<open>System\<close>: the tasks together, as a step relation in which they take turns in any order, with
    the follower's reconnections as states of its own; \<open>setting_of\<close> reads what the tasks work with
    off the join set that \<open>main\<close> fills.  \<open>System_Runs\<close>: every reachable state is an interleaving of
    runs of the tasks, so that the theorems about each task hold of the whole.
    \<open>System_End\<close>: the ways the program ends, by task, and what \<open>main\<close> returns then.
  \<^item> This theory: properties that follow a message from the chain or the network to its alert
    and to the post in Slack, and the settings from the command line and the networks file to the
    alerts.

  \<^bold>\<open>Bounds.\<close>  No fuel is used.  \<open>recursive_tree_route\<close> is a partial function into \<open>option\<close> whose
  termination is a theorem under an honest node; every other loop is structural or has a
  termination proof.  Where a theorem says how the slot monitor ends, clock readings are assumed below a 600th
  of the longest duration (\<open>clocked\<close>; nearly a billion years), because the sum over the window
  panics beyond; theorems about its chain of slots also assume slots below the largest 64-bit
  number (\<open>slot_input_ok\<close>).  The step relation of \<open>System\<close> restricts neither.  A channel
  keeps at least its capacity of 100 entries; when exactly a slower receiver gets \<open>Lagged\<close> is a
  parameter.

  \<^bold>\<open>What is not modelled.\<close>  The texts of the log messages, the fairness of tokio's scheduling
  (\<open>System\<close> allows every order), the concurrency of the header requests while the cache is
  loaded (their results are ordered), what the runtime metadata updater does (it is code of the
  client library; \<open>System_End\<close> lets it return at any time, with or without an error), and the erasure of the secret's memory
  beyond the value itself.  In \<open>System\<close> the tasks have passed their set-up: opening the Slack
  session, building the HTTP client and parsing the account addresses are covered by \<open>run_slack\<close>,
  \<open>push_uptime_status\<close> and \<open>watch_events\<close> in their own theories.
\<close>

section \<open>Along the channels\<close>

lemma reorg_due_from:
  assumes "a \<in> set (reorg_due cfg i)"
  obtains bx rd where "i = Recv (Inr bx)" and "bx_maybe_reorg_data bx = Some rd"
    and "unat (reorg_depth_threshold cfg) \<le> length (rd_retracted rd)"
    and "a = \<lparr>co_best_block = block_id (last (bx_blocks bx)), co_common_block = rd_common_block rd,
              co_enacted = rd_enacted rd, co_retracted = rd_retracted rd\<rparr>"
  using assms by (cases "(cfg, i)" rule: reorg_due.cases) (auto split: option.splits if_splits, metis)

lemma slow_slots_nil: "(\<And>a. a \<in> set as \<Longrightarrow> (\<forall>r. a \<noteq> SlowSlot r)) \<Longrightarrow> slow_slots as = []"
  by (induction as) (auto simp: slow_slots_def split: alert.splits)

lemma slow_due_received: "slow_due cfg l ins = slow_due cfg l (map (\<lambda>p. Recv (Inr p)) (received ins))"
proof (induction ins arbitrary: l)
  case (Cons i ins)
  show ?case
  proof (cases i)
    case Elapsed
    with Cons show ?thesis by (cases l) auto
  next
    case (Recv r)
    with Cons show ?thesis by (cases r; cases l) auto
  qed
qed simp

lemma monitor_run_slow:
  assumes "sources_ok env s" and "monitor_runs env s chain event slot"
  shows "slow_slots chain = []" and "slow_slots event = []"
    and "slow_slots slot = slow_due (st_slots_cfg env) None (map (\<lambda>p. Recv (Inr p)) (take (sy_slot_pos s) (sy_proofs s)))"
proof -
  obtain cins eins now sins where c: "run_loop (watch_step (st_chain_cfg env)) watch_init cins = (sy_chain s, chain, None)"
    and cgot: "received cins = take (sy_chain_pos s) (sy_blocks s)"
    and e: "run_loop (events_step (st_finders env)) (st_accounts env) eins = (st_accounts env, event, None)"
    and m: "run_loop (monitor_step (st_push env) (st_slots_cfg env)) (monitor_init now) sins = (sy_slots s, slot, None)"
    and got: "received sins = take (sy_slot_pos s) (sy_proofs s)"
    using assms(2) by (auto simp: monitor_runs_def timed_runs_def event_runs_def)
  have "list_all watch_input_ok cins" using chain_inputs_ok [OF assms(1) cgot] .
  then have "list_all chain_alert chain" using watch.run_out [OF _ _ c] by simp
  then show "slow_slots chain = []" by (intro slow_slots_nil) (auto simp: list_all_iff)
  show "slow_slots event = []" using events.run_out [OF _ _ e] by (intro slow_slots_nil) (auto simp: list_all_iff)
  have "monitor_ok (st_push env) (monitor_init now)"
    using assms(1) by (auto simp: sources_ok_def monitor_ok_def monitor_init_def)
  from run_slow [OF this m]
  show "slow_slots slot = slow_due (st_slots_cfg env) None (map (\<lambda>p. Recv (Inr p)) (take (sy_slot_pos s) (sy_proofs s)))"
    using slow_due_received [of "st_slots_cfg env" None sins] by (simp add: got reached_def last_slot_def monitor_init_def)
qed

lemma reachable_slow:
  assumes "reachable env s"
  shows "slow_slots (sy_alerts s) =
    slow_due (st_slots_cfg env) None (map (\<lambda>p. Recv (Inr p)) (take (sy_slot_pos s) (sy_proofs s)))"
proof -
  from runs.reach_inv [OF assms] obtain chain event slot where m: "monitor_runs env s chain event slot"
    by (auto simp: task_runs_def)
  note slow = monitor_run_slow [OF sources.reach_inv [OF assms] m]
  have "sy_alerts s \<in> interleave3 chain event slot" using m by (simp add: monitor_runs_def)
  with slow(1,2) have "slow_slots (sy_alerts s) = slow_slots slot"
    unfolding slow_slots_def by (intro concat_map_interleave3_last) blast+
  with slow(3) show ?thesis by simp
qed

text \<open>A reported transfer names an account the event monitor was given.\<close>

lemma reachable_transfers:
  assumes "reachable env s" and "Transfer x \<in> set (event_alerts (sy_alerts s))"
  shows "names_one_of (st_account_list env) x"
proof -
  obtain clients where
    "list_all (\<lambda>(cl, bx). list_all (\<lambda>b. readable (block_report (st_finders env) (configured (st_from_str env) (st_account_list env)) cl b)) (bx_blocks bx))
      (zip clients (take (sy_event_pos s) (sy_blocks s)))"
    and "event_alerts (sy_alerts s) = concat (map (\<lambda>(cl, bx). concat (map
        (\<lambda>b. projr (block_report (st_finders env) (configured (st_from_str env) (st_account_list env)) cl b)) (bx_blocks bx)))
      (zip clients (take (sy_event_pos s) (sy_blocks s))))"
    using reachable_events [OF assms(1)] by blast
  with assms(2) obtain cl b es where
    "block_report (st_finders env) (configured (st_from_str env) (st_account_list env)) cl b = Inr es" "Transfer x \<in> set es"
    by (fastforce simp: list_all_iff readable_def)
  then show ?thesis by (rule block_report_named)
qed

text \<open>What is known of a broadcast that calls for a reorg alert.\<close>

lemma broadcast_reorg:
  assumes "some_broadcast api U bx" and "bx_maybe_reorg_data bx = Some rd"
  shows "rd_enacted rd @ [ext_id (last (bx_blocks bx))] = map ext_id (bx_blocks bx) \<and>
    hlinked api U (hn_hash (rd_common_block rd)) (map hn_hash (rd_retracted rd)) \<and>
    hlinked api U (hn_hash (rd_common_block rd)) (map be_hash (bx_blocks bx)) \<and>
    list_all (genuine_id api U) (rd_retracted rd) \<and> list_all (genuine_id api U) (map ext_id (bx_blocks bx))"
proof -
  from assms obtain best best' where ok: "broadcast_ok api U best best' bx" by (auto simp: some_broadcast_def)
  then have "bx_blocks bx \<noteq> []" "rd_enacted rd = map ext_id (butlast (bx_blocks bx))"
    using assms(2) by (auto simp: broadcast_ok_def reorg_data_ok_def)
  then have "rd_enacted rd @ [ext_id (last (bx_blocks bx))] = map ext_id (bx_blocks bx)"
    by (metis append_butlast_last_id list.simps(8) list.simps(9) map_append)
  moreover have "list_all (genuine_id api U) (map ext_id (bx_blocks bx))"
    using ok by (auto simp: broadcast_ok_def list_all_iff genuine_ext_def genuine_id_def ext_id_def)
  ultimately show ?thesis
    using ok assms(2) by (auto simp: broadcast_ok_def base_hash_def retracted_hashes_def reorg_data_ok_def)
qed

lemma posted_reorg:
  assumes "a \<in> set (reorgs alerts)"
  shows "post_request_of sa (format_reorg env cfg a) \<in> set (posts_for env cfg sa alerts)"
proof -
  have "Reorg a \<in> set alerts" using assms by (auto simp: reorgs_def split: alert.splits)
  then have "post_request_of sa (projr (format_alert env cfg (Reorg a))) \<in> set (posts_for env cfg sa alerts)"
    unfolding posts_for_def set_map by (rule imageI)
  then show ?thesis by simp
qed

section \<open>Properties\<close>

text \<open>
  C4: A reorg alert tells the truth about the chain, in every state of the running program: it
  retracts at least as many blocks as the threshold; its retracted blocks are a chain of
  existing headers that starts at a child of its common block, and so are its enacted blocks
  followed by its best block; all these blocks are listed with the numbers of their headers;
  and the enacted blocks with the best block are exactly the blocks of one of the broadcasts.
\<close>

theorem reorg_alert_genuine:
  assumes "reachable env s" and "a \<in> set (reorgs (sy_alerts s))"
  shows "unat (reorg_depth_threshold (st_chain_cfg env)) \<le> length (co_retracted a) \<and>
    hlinked (st_api env) (st_headers env) (hn_hash (co_common_block a)) (map hn_hash (co_retracted a)) \<and>
    hlinked (st_api env) (st_headers env) (hn_hash (co_common_block a)) (map hn_hash (co_enacted a @ [co_best_block a])) \<and>
    list_all (genuine_id (st_api env) (st_headers env)) (co_retracted a @ co_enacted a @ [co_best_block a]) \<and>
    (\<exists>bx \<in> set (sy_blocks s). co_enacted a @ [co_best_block a] = map ext_id (bx_blocks bx))"
proof -
  from assms(2) obtain b where b: "b \<in> set (sy_blocks s)" "a \<in> set (reorg_due (st_chain_cfg env) (Recv (Inr b)))"
    unfolding reachable_reorgs [OF assms(1)] by (auto simp del: reorg_due.simps dest: in_set_takeD)
  from reorg_due_from [OF b(2)] obtain rd where rd: "bx_maybe_reorg_data b = Some rd"
    "unat (reorg_depth_threshold (st_chain_cfg env)) \<le> length (rd_retracted rd)"
    and a: "a = \<lparr>co_best_block = block_id (last (bx_blocks b)), co_common_block = rd_common_block rd,
              co_enacted = rd_enacted rd, co_retracted = rd_retracted rd\<rparr>" by blast
  have "some_broadcast (st_api env) (st_headers env) b"
    using sources.reach_inv [OF assms(1)] b(1) by (auto simp: sources_ok_def list_all_iff)
  note ok = broadcast_reorg [OF this rd(1)]
  have e: "co_enacted a @ [co_best_block a] = map ext_id (bx_blocks b)" using ok a by (simp add: block_id_def ext_id_def)
  have h: "map hn_hash (map ext_id (bx_blocks b)) = map be_hash (bx_blocks b)" by (simp add: ext_id_def)
  have "hlinked (st_api env) (st_headers env) (hn_hash (co_common_block a)) (map hn_hash (co_enacted a @ [co_best_block a]))"
    "list_all (genuine_id (st_api env) (st_headers env)) (co_retracted a @ co_enacted a @ [co_best_block a])"
    unfolding e h list_all_append using ok a by simp_all
  moreover have "hlinked (st_api env) (st_headers env) (hn_hash (co_common_block a)) (map hn_hash (co_retracted a))"
    "unat (reorg_depth_threshold (st_chain_cfg env)) \<le> length (co_retracted a)"
    using ok rd(2) a by simp_all
  ultimately show ?thesis using b(1) e by blast
qed

theorem reorg_alert_genuine_witness:
  "\<exists>s. reachable ex_setting s \<and> ex_chain_reorg \<in> set (reorgs (sy_alerts s)) \<and> length (co_retracted ex_chain_reorg) = 2 \<and>
     hlinked ref_api ex_U (hn_hash (co_common_block ex_chain_reorg)) (map hn_hash (co_enacted ex_chain_reorg @ [co_best_block ex_chain_reorg]))"
proof -
  obtain s where s: "reachable ex_setting s" "sy_alerts s = [Reorg ex_chain_reorg]" using ex_reported by blast
  then have a: "ex_chain_reorg \<in> set (reorgs (sy_alerts s))" by simp
  have "st_api ex_setting = ref_api" "st_headers ex_setting = ex_U" "length (co_retracted ex_chain_reorg) = 2"
    by (simp_all add: ex_setting_def ex_chain_reorg_def)
  with reorg_alert_genuine [OF s(1) a] s(1) a show ?thesis by (metis (no_types, lifting))
qed



text \<open>
  C18: From the chain to the reader: every reorg alert that the Slack task has taken is in one of
  the posts, and from the text of that post alone the best and the common block and all
  retracted and enacted blocks can be read back.
\<close>

theorem reorg_post_readable:
  assumes "reachable env s" and "prints_one_line (st_format_env env)" and "hex_ok (st_format_env env) unhex"
    and "a \<in> set (reorgs (take (sy_posted s) (sy_alerts s)))"
  shows "\<exists>post\<in>set (sy_posts s). map (read_reorg unhex) (pr_markdown_blocks post) = [Some a]"
proof -
  have "sy_posts s = posts_for (st_format_env env) (st_format_cfg env) (st_slack env) (take (sy_posted s) (sy_alerts s))"
    using runs.reach_inv [OF assms(1)] by (simp add: task_runs_def slack_runs_def)
  with posted_reorg [OF assms(4), of "st_slack env" "st_format_env env" "st_format_cfg env"]
  have "post_request_of (st_slack env) (format_reorg (st_format_env env) (st_format_cfg env) a) \<in> set (sy_posts s)" by simp
  moreover have "read_reorg unhex (format_reorg (st_format_env env) (st_format_cfg env) a) = Some a"
    using read_format_reorg [OF assms(2,3)] .
  ultimately show ?thesis by (force simp: post_request_of_def)
qed

theorem reorg_post_readable_witness:
  "\<exists>s. reachable ex_setting s \<and>
     (\<exists>post\<in>set (sy_posts s). map (read_reorg ex_unhex) (pr_markdown_blocks post) = [Some ex_chain_reorg])"
proof -
  obtain s where s: "reachable ex_setting s" "sy_alerts s = [Reorg ex_chain_reorg]" "sy_posted s = 0" using ex_reported by blast
  from slack_post_step [of s ex_setting] s(2,3) obtain t
    where t: "system_step ex_setting s t" "sy_posted t = 1" "sy_alerts t = [Reorg ex_chain_reorg]" by auto
  note r = reach_step [OF s(1) t(1)]
  have "ex_chain_reorg \<in> set (reorgs (take (sy_posted t) (sy_alerts t)))" using t(2,3) by simp
  moreover have "st_format_env ex_setting = ex_format_env" by (simp add: ex_setting_def)
  ultimately show ?thesis
    using reorg_post_readable [OF r, of ex_unhex ex_chain_reorg] ex_prints_one_line ex_hex_ok r by metis
qed

text \<open>
  C33: From the network to the alert: in every state of the running program, the slow-slot
  alerts sent are exactly those that the proof-of-time notifications taken so far call for, in
  order, whatever the other tasks do in between.
\<close>

theorem slow_slots_from_network:
  assumes "reachable env s"
  shows "slow_slots (sy_alerts s) =
    slow_due (st_slots_cfg env) None (map (\<lambda>p. Recv (Inr p)) (take (sy_slot_pos s) (sy_proofs s)))"
  by (rule reachable_slow [OF assms])

text \<open>Two slots two seconds apart, with a threshold of 1.2 seconds.\<close>

theorem slow_slots_from_network_witness:
  "\<exists>s. reachable ex_setting s \<and> slow_slots (sy_alerts s) =
     [\<lparr>ss_slot = 6, ss_previous_slot = 5, ss_slot_time = 2000000000, ss_threshold = 1200000000\<rparr>]"
proof -
  let ?i = "\<lambda>now n. SwarmNext now (Behaviour (PotNotifications (Notification [1] (pi_proof (ex_pot n 0)))))"
  have sent: "notified_proof (?i now n) = [ex_pot n now]" for now n by (simp add: ex_pot_def)
  let ?s0 = "system_init ex_network 0"
  obtain s1 where s1: "system_step ex_setting ?s0 s1" "sy_proofs s1 = [ex_pot 5 0]" "sy_slot_pos s1 = 0" "sy_slots s1 = monitor_init 0"
    using network_step [of ex_setting ?s0 "?i 0 5", unfolded sent] by (auto simp: system_init_def)
  obtain s2 where s2: "system_step ex_setting s1 s2" "sy_proofs s2 = [ex_pot 5 0] @ [ex_pot 6 2000000000]" "sy_slot_pos s2 = 0"
    "sy_slots s2 = monitor_init 0"
    using network_step [of ex_setting s1 "?i 2000000000 6", unfolded sent] s1(2-4) by auto
  note r2 = reach_step [OF reach_step [OF ex_started s1(1)] s2(1)]
  have clock: "list_all clocked (sy_proofs s2)" by (simp add: s2(2) clocked_def duration_bounds)
  have recv2: "chan_recv (st_lag ex_setting) (sy_proofs s2) (sy_slot_pos s2) = Some (Inr (ex_pot 5 0))"
    using chan_recv_within [OF ex_lag_law, of "sy_slot_pos s2" "sy_proofs s2"] s2 by (simp add: CHANNEL_CAPACITY_def)
  have "last_slot (sy_slots s2) = None" by (simp add: s2(4) monitor_init_def last_slot_def)
  with slot_receive_step [OF r2 clock _ recv2] obtain s3 as where s3: "system_step ex_setting s2 s3" "sy_slot_pos s3 = 1"
    "sy_proofs s3 = sy_proofs s2" "monitor_step (st_push ex_setting) (st_slots_cfg ex_setting) (monitor_init 0) (Recv (Inr (ex_pot 5 0))) = (sy_slots s3, as, None)"
    using s2(3,4) by auto
  note r3 = reach_step [OF r2 s3(1)]
  have "monitor_ok (st_push ex_setting) (monitor_init 0)" "last_slot (monitor_init 0) = None"
    by (simp_all add: monitor_ok_init truncating_push_ok ex_setting_def monitor_init_def [of 0] last_slot_def monitor_ok_def)
  from first_reached(1) [OF this s3(4)] have "last_slot (sy_slots s3) = Some 5" by (auto dest: reached_last)
  moreover have "chan_recv (st_lag ex_setting) (sy_proofs s3) (sy_slot_pos s3) = Some (Inr (ex_pot 6 2000000000))"
    using chan_recv_within [OF ex_lag_law, of "sy_slot_pos s3" "sy_proofs s3"] s2(2) s3 by (simp add: CHANNEL_CAPACITY_def)
  ultimately obtain s4 where s4: "system_step ex_setting s3 s4" "sy_slot_pos s4 = 2" "sy_proofs s4 = sy_proofs s3"
    using slot_receive_step [OF r3] clock s3(2,3) by fastforce
  note r4 = reach_step [OF r3 s4(1)]
  from slow_slots_from_network [OF r4] s4(2,3) s3(3) s2(2) r4 show ?thesis
    by (auto simp: ex_setting_def ex_slots_config_def)
qed

end
